theory Spec2Isabelle
  imports Complex_Main "HOL-Library.Char_ord" "HOL-Library.Multiset"
begin

section \<open>The links table (database/schema.sql)\<close>

text \<open>
  One row of the table \<open>links\<close>. The columns are those of the schema:
  \<open>short_code VARCHAR(10) UNIQUE NOT NULL\<close>, \<open>original_url TEXT NOT NULL\<close>,
  \<open>clicks INTEGER DEFAULT 0\<close>, \<open>last_clicked_at TIMESTAMP WITH TIME ZONE\<close> (nullable) and
  \<open>created_at TIMESTAMP WITH TIME ZONE DEFAULT CURRENT_TIMESTAMP\<close>. The surrogate key
  \<open>id SERIAL\<close> is neither read nor written by any statement of the server and is left out.
  A timestamp is a point on a discrete clock; \<open>CURRENT_TIMESTAMP\<close> is passed to every
  statement that reads it.
\<close>

type_synonym timestamp = nat

record link =
  short_code :: string
  original_url :: string
  clicks :: int
  last_clicked_at :: "timestamp option"
  created_at :: timestamp

type_synonym db = "link list"

text \<open>The largest value of a PostgreSQL \<open>INTEGER\<close> (four bytes, signed).\<close>

definition int4_max :: int where
  "int4_max = 2147483647"

text \<open>
  The errors a statement raises from the data alone: a duplicate \<open>short_code\<close>, an
  \<open>INTEGER\<close> out of range, a string longer than its \<open>VARCHAR(10)\<close> column. (A lost
  connection is outside the model.)
\<close>

datatype db_error = UniqueViolation | NumericValueOutOfRange | StringDataRightTruncation

text \<open>The rows inserted by schema.sql as sample data, at the time the script runs.\<close>

definition sample_links :: "timestamp \<Rightarrow> db" where
  "sample_links now =
     [\<lparr>short_code = ''docs'', original_url = ''https://docs.example.com'', clicks = 0,
        last_clicked_at = None, created_at = now\<rparr>,
      \<lparr>short_code = ''google'', original_url = ''https://google.com'', clicks = 0,
        last_clicked_at = None, created_at = now\<rparr>,
      \<lparr>short_code = ''test'', original_url = ''https://example.com/test'', clicks = 0,
        last_clicked_at = None, created_at = now\<rparr>]"

subsection \<open>The SQL statements of the server\<close>

text \<open>\<open>SELECT ... FROM links WHERE short_code = $1\<close>\<close>

definition select_by_code :: "string \<Rightarrow> db \<Rightarrow> db_error + link list" where
  "select_by_code code d = Inr (filter (\<lambda>r. short_code r = code) d)"

text \<open>
  \<open>SELECT ... FROM links ORDER BY created_at DESC\<close>. SQL leaves the order of rows with
  equal \<open>created_at\<close> open; the model takes the reverse of a stable ascending sort.
\<close>

definition select_all_desc :: "db \<Rightarrow> db_error + link list" where
  "select_all_desc d = Inr (rev (sort_key created_at d))"

text \<open>
  \<open>UPDATE links SET clicks = clicks + 1, last_clicked_at = CURRENT_TIMESTAMP
   WHERE short_code = $1\<close>. The statement fails as a whole, changing nothing, when
  \<open>clicks + 1\<close> leaves the range of \<open>INTEGER\<close>.
\<close>

definition update_clicks :: "timestamp \<Rightarrow> string \<Rightarrow> db \<Rightarrow> db_error + db" where
  "update_clicks now code d =
     (if list_ex (\<lambda>r. short_code r = code \<and> int4_max < clicks r + 1) d
      then Inl NumericValueOutOfRange
      else Inr (map (\<lambda>r. if short_code r = code
                          then r\<lparr>clicks := clicks r + 1, last_clicked_at := Some now\<rparr>
                          else r) d))"

text \<open>
  \<open>INSERT INTO links (short_code, original_url) VALUES ($1, $2) RETURNING ...\<close>: the
  other columns take their defaults. The result is the inserted row and the new table.
\<close>

definition insert_link :: "timestamp \<Rightarrow> string \<Rightarrow> string \<Rightarrow> db \<Rightarrow> db_error + (link \<times> db)" where
  "insert_link now code url d =
     (if 10 < length code then Inl StringDataRightTruncation
      else if code \<in> set (map short_code d) then Inl UniqueViolation
      else
        let r = \<lparr>short_code = code, original_url = url, clicks = 0,
                 last_clicked_at = None, created_at = now\<rparr>
        in Inr (r, d @ [r]))"

text \<open>\<open>DELETE FROM links WHERE short_code = $1 RETURNING short_code\<close>: the deleted rows and
  the new table.\<close>

definition delete_by_code :: "string \<Rightarrow> db \<Rightarrow> db_error + (link list \<times> db)" where
  "delete_by_code code d =
     Inr (filter (\<lambda>r. short_code r = code) d, filter (\<lambda>r. short_code r \<noteq> code) d)"

section \<open>Responses\<close>

text \<open>
  A result row as the driver hands it to \<open>res.json\<close>: an object with one key per column
  of the statement's column list, in that order.
\<close>

datatype sql_value = SqlText string | SqlInt int | SqlTime timestamp | SqlNull

type_synonym json_row = "(string \<times> sql_value) list"

definition column :: "link \<Rightarrow> string \<Rightarrow> sql_value" where
  "column r c =
     (if c = ''short_code'' then SqlText (short_code r)
      else if c = ''original_url'' then SqlText (original_url r)
      else if c = ''clicks'' then SqlInt (clicks r)
      else if c = ''last_clicked_at'' then
        (case last_clicked_at r of None \<Rightarrow> SqlNull | Some t \<Rightarrow> SqlTime t)
      else if c = ''created_at'' then SqlTime (created_at r)
      else SqlNull)"

definition columns :: "string list \<Rightarrow> link \<Rightarrow> json_row" where
  "columns cs r = map (\<lambda>c. (c, column r c)) cs"

datatype body =
    ErrorBody string
  | MessageBody string
  | Row json_row
  | Rows "json_row list"

text \<open>\<open>res.redirect\<close> with its status and location, or \<open>res.status(n).json(body)\<close>.\<close>

datatype response = Redirect nat string | Json nat body

definition internal_error :: response where
  "internal_error = Json 500 (ErrorBody ''Internal server error'')"

section \<open>Short codes\<close>

text \<open>The test \<open>/^[A-Za-z0-9]{6,8}$/.test(shortCode)\<close>.\<close>

definition alnum :: "char \<Rightarrow> bool" where
  "alnum c =
     ((CHR ''A'' \<le> c \<and> c \<le> CHR ''Z'') \<or> (CHR ''a'' \<le> c \<and> c \<le> CHR ''z'')
      \<or> (CHR ''0'' \<le> c \<and> c \<le> CHR ''9''))"

definition code_pattern :: "string \<Rightarrow> bool" where
  "code_pattern s = (6 \<le> length s \<and> length s \<le> 8 \<and> list_all alnum s)"

text \<open>
  \<open>generateShortCode\<close>. The random source is the sequence of values the calls of
  \<open>Math.random()\<close> return: \<open>rnd 0\<close> decides the length and \<open>rnd (i + 1)\<close> the character at
  position \<open>i\<close>. The product with \<open>Math.random()\<close> is taken over the reals.
  \<open>charAt\<close> returns the empty string outside the string.
\<close>

definition chars :: string where
  "chars = ''ABCDEFGHIJKLMNOPQRSTUVWXYZabcdefghijklmnopqrstuvwxyz0123456789''"

definition charAt :: "string \<Rightarrow> int \<Rightarrow> string" where
  "charAt s i = (if 0 \<le> i \<and> i < int (length s) then [s ! nat i] else [])"

function gen_loop :: "(nat \<Rightarrow> real) \<Rightarrow> int \<Rightarrow> int \<Rightarrow> string \<Rightarrow> string" where
  "gen_loop rnd len i result =
     (if i < len
      then gen_loop rnd len (i + 1)
             (result @ charAt chars \<lfloor>rnd (nat i + 1) * real (length chars)\<rfloor>)
      else result)"
  by pat_completeness auto
termination
  by (relation "measure (\<lambda>(rnd, len, i, result). nat (len - i))") auto

declare gen_loop.simps [simp del]

definition generateShortCode :: "(nat \<Rightarrow> real) \<Rightarrow> string" where
  "generateShortCode rnd = (let len = \<lfloor>rnd 0 * 3\<rfloor> + 6 in gen_loop rnd len 0 [])"

section \<open>The handlers\<close>

text \<open>\<open>code.toLowerCase()\<close> on the letters of ASCII.\<close>

definition lower_char :: "char \<Rightarrow> char" where
  "lower_char c =
     (case map_of (zip ''ABCDEFGHIJKLMNOPQRSTUVWXYZ'' ''abcdefghijklmnopqrstuvwxyz'') c of
        Some l \<Rightarrow> l
      | None \<Rightarrow> c)"

definition toLowerCase :: "string \<Rightarrow> string" where
  "toLowerCase s = map lower_char s"

definition reserved_paths :: "string list" where
  "reserved_paths = [''api'', ''healthz'', ''code'', ''public'']"

text \<open>\<open>app.get('/:code')\<close>: the redirect.\<close>

definition redirect_link :: "timestamp \<Rightarrow> string \<Rightarrow> db \<Rightarrow> response \<times> db" where
  "redirect_link now code d =
     (if toLowerCase code \<in> set reserved_paths then (Redirect 302 ''/'', d)
      else
        case select_by_code code d of
          Inl e \<Rightarrow> (internal_error, d)
        | Inr [] \<Rightarrow> (Json 404 (ErrorBody ''Short URL not found''), d)
        | Inr (row # rest) \<Rightarrow>
            (case update_clicks now code d of
               Inl e \<Rightarrow> (internal_error, d)
             | Inr d' \<Rightarrow> (Redirect 302 (original_url row), d')))"

definition all_columns :: "string list" where
  "all_columns = [''short_code'', ''original_url'', ''clicks'', ''last_clicked_at'', ''created_at'']"

text \<open>\<open>app.get('/api/links')\<close>: the list of all links.\<close>

definition list_links :: "db \<Rightarrow> response \<times> db" where
  "list_links d =
     (case select_all_desc d of
        Inl e \<Rightarrow> (internal_error, d)
      | Inr rows \<Rightarrow> (Json 200 (Rows (map (columns all_columns) rows)), d))"

text \<open>\<open>app.get('/api/links/:code')\<close>: one link.\<close>

definition get_link :: "string \<Rightarrow> db \<Rightarrow> response \<times> db" where
  "get_link code d =
     (case select_by_code code d of
        Inl e \<Rightarrow> (internal_error, d)
      | Inr [] \<Rightarrow> (Json 404 (ErrorBody ''Link not found''), d)
      | Inr (row # rest) \<Rightarrow> (Json 200 (Row (columns all_columns row)), d))"

text \<open>
  \<open>app.post('/api/links')\<close>. The fields \<open>url\<close> and \<open>customCode\<close> of the request body are
  absent (\<open>None\<close>) or strings; \<open>validator.isURL(url, { require_protocol: true })\<close> belongs
  to a library outside the repository and is the parameter \<open>isURL\<close>.
\<close>

definition create_link ::
  "(string \<Rightarrow> bool) \<Rightarrow> (nat \<Rightarrow> real) \<Rightarrow> timestamp \<Rightarrow> string option \<Rightarrow> string option \<Rightarrow> db
     \<Rightarrow> response \<times> db" where
  "create_link isURL rnd now url customCode d =
     (case url of
        None \<Rightarrow> (Json 400 (ErrorBody ''Invalid URL. Please include http:// or https://''), d)
      | Some u \<Rightarrow>
          if u = [] \<or> \<not> isURL u
          then (Json 400 (ErrorBody ''Invalid URL. Please include http:// or https://''), d)
          else
            (case (case customCode of
                     None \<Rightarrow> Inr (generateShortCode rnd)
                   | Some c \<Rightarrow>
                       if c = [] then Inr (generateShortCode rnd)
                       else if \<not> code_pattern c
                       then Inl (Json 400 (ErrorBody
                         ''Custom code must be 6-8 characters and contain only letters and numbers''))
                       else Inr c) of
               Inl resp \<Rightarrow> (resp, d)
             | Inr shortCode \<Rightarrow>
                 (case select_by_code shortCode d of
                    Inl e \<Rightarrow> (internal_error, d)
                  | Inr (existing # rest) \<Rightarrow>
                      (Json 409 (ErrorBody ''409 Custom code already exists''), d)
                  | Inr [] \<Rightarrow>
                      (case insert_link now shortCode u d of
                         Inl e \<Rightarrow> (internal_error, d)
                       | Inr (row, d') \<Rightarrow>
                           (Json 201 (Row (columns
                              [''short_code'', ''original_url'', ''clicks'', ''created_at''] row)),
                            d')))))"

text \<open>\<open>app.delete('/api/links/:code')\<close>.\<close>

definition delete_link :: "string \<Rightarrow> db \<Rightarrow> response \<times> db" where
  "delete_link code d =
     (case delete_by_code code d of
        Inl e \<Rightarrow> (internal_error, d)
      | Inr ([], d') \<Rightarrow> (Json 404 (ErrorBody ''Link not found''), d')
      | Inr (row # rest, d') \<Rightarrow> (Json 200 (MessageBody ''Link deleted successfully''), d'))"

section \<open>Notions used in the statements\<close>

text \<open>The HTTP status of a response.\<close>

fun status_of :: "response \<Rightarrow> nat" where
  "status_of (Redirect s l) = s"
| "status_of (Json s b) = s"

text \<open>A field of the JSON object a response carries, when it carries one.\<close>

fun body_field :: "response \<Rightarrow> string \<Rightarrow> sql_value option" where
  "body_field (Json s (Row r)) k = map_of r k"
| "body_field other k = None"

text \<open>
  Sequential calls of the redirect for one code, one call per time of the list, nothing
  in between: the responses in order and the table after the last call.
\<close>

fun redirect_seq :: "string \<Rightarrow> timestamp list \<Rightarrow> db \<Rightarrow> response list \<times> db" where
  "redirect_seq code [] d = ([], d)"
| "redirect_seq code (t # ts) d =
     (case redirect_link t code d of
        (r, d') \<Rightarrow> (case redirect_seq code ts d' of (rs, d'') \<Rightarrow> (r # rs, d'')))"

text \<open>The \<open>UNIQUE\<close> constraint on \<open>short_code\<close>, as a property of a table.\<close>

definition unique_codes :: "db \<Rightarrow> bool" where
  "unique_codes d = distinct (map short_code d)"

text \<open>The click counter of every link is non-negative.\<close>

definition clicks_nonneg :: "db \<Rightarrow> bool" where
  "clicks_nonneg d = list_all (\<lambda>r. 0 \<le> clicks r) d"

text \<open>
  The five operations on the store, each with the arguments of its request, and the
  handler that serves each.
\<close>

datatype operation =
    OpCreate "string option" "string option"
  | OpRedirect string
  | OpGetStats string
  | OpListAll
  | OpDelete string

fun perform ::
  "(string \<Rightarrow> bool) \<Rightarrow> (nat \<Rightarrow> real) \<Rightarrow> timestamp \<Rightarrow> operation \<Rightarrow> db \<Rightarrow> response \<times> db" where
  "perform isURL rnd now (OpCreate url customCode) d = create_link isURL rnd now url customCode d"
| "perform isURL rnd now (OpRedirect code) d = redirect_link now code d"
| "perform isURL rnd now (OpGetStats code) d = get_link code d"
| "perform isURL rnd now OpListAll d = list_links d"
| "perform isURL rnd now (OpDelete code) d = delete_link code d"

subsection \<open>Concurrent redirects\<close>

text \<open>
  A call of the redirect handler in flight. The handler awaits two SQL statements, the
  \<open>SELECT\<close> and the \<open>UPDATE\<close>, and other calls may run in between: a call has not
  started, or has selected its row and not yet updated, or has sent its response.
\<close>

datatype call = Start | Found link | Finished response

fun finished :: "call \<Rightarrow> bool" where
  "finished (Finished r) = True"
| "finished other = False"

text \<open>
  One step of a call of \<open>app.get('/:code')\<close>: the handler's code up to and including its
  next SQL statement, the statement being executed as a whole (every statement is one
  atomic step, as the database executes the single \<open>UPDATE\<close>). The first step is the
  test for reserved paths and the \<open>SELECT\<close>, the second the \<open>UPDATE\<close> and the redirect;
  a call that has sent its response does nothing more.
\<close>

definition redirect_step :: "string \<Rightarrow> timestamp \<Rightarrow> call \<Rightarrow> db \<Rightarrow> call \<times> db" where
  "redirect_step code now c d =
     (case c of
        Start \<Rightarrow>
          if toLowerCase code \<in> set reserved_paths then (Finished (Redirect 302 ''/''), d)
          else
            (case select_by_code code d of
               Inl e \<Rightarrow> (Finished internal_error, d)
             | Inr [] \<Rightarrow> (Finished (Json 404 (ErrorBody ''Short URL not found'')), d)
             | Inr (row # rest) \<Rightarrow> (Found row, d))
      | Found row \<Rightarrow>
          (case update_clicks now code d of
             Inl e \<Rightarrow> (Finished internal_error, d)
           | Inr d' \<Rightarrow> (Finished (Redirect 302 (original_url row)), d'))
      | Finished r \<Rightarrow> (Finished r, d))"

text \<open>
  An interleaving of concurrent calls for one code is a schedule: the list of the steps
  in the order they happen, each step naming the call that takes it and the time.
  Running a schedule takes the steps one after the other on the calls and the table.
\<close>

fun run_schedule :: "string \<Rightarrow> (nat \<times> timestamp) list \<Rightarrow> call list \<times> db \<Rightarrow> call list \<times> db" where
  "run_schedule code [] (cs, d) = (cs, d)"
| "run_schedule code ((i, now) # sched) (cs, d) =
     (if i < length cs
      then (case redirect_step code now (cs ! i) d of
              (c', d') \<Rightarrow> run_schedule code sched (cs[i := c'], d'))
      else run_schedule code sched (cs, d))"

text \<open>How many of its two steps a call has behind it.\<close>

fun progress :: "call \<Rightarrow> nat" where
  "progress Start = 0"
| "progress (Found row) = 1"
| "progress (Finished r) = 2"

text \<open>
  What holds between the steps of concurrent redirects of the code \<open>code\<close>, stored with
  URL \<open>u\<close> and counter \<open>n\<close> at the start: the codes are unique, the counter of the link
  is \<open>n\<close> plus the number of calls that have sent their response, every call is at its
  start, holds a row with the URL \<open>u\<close>, or has answered with the redirect to \<open>u\<close>, and
  the counter has room for all the calls.
\<close>

definition redirects_inv :: "string \<Rightarrow> string \<Rightarrow> int \<Rightarrow> call list \<Rightarrow> db \<Rightarrow> bool" where
  "redirects_inv code u n cs d =
     (unique_codes d \<and>
      list_ex (\<lambda>r. short_code r = code \<and> original_url r = u \<and>
                    clicks r = n + int (length (filter finished cs))) d \<and>
      list_all (\<lambda>c. case c of Start \<Rightarrow> True
                     | Found row \<Rightarrow> original_url row = u
                     | Finished r \<Rightarrow> r = Redirect 302 u) cs \<and>
      n + int (length cs) \<le> int4_max)"

section \<open>The code generator\<close>

lemma chars_length: "length chars = 62"
  by (simp add: chars_def)

lemma chars_alnum: "list_all alnum chars"
  by (simp add: chars_def alnum_def)

lemma charAt_chars:
  assumes "0 \<le> r" "r < 1"
  shows "\<exists>c. charAt chars \<lfloor>r * real (length chars)\<rfloor> = [c] \<and> c \<in> set chars"
proof -
  let ?k = "\<lfloor>r * real (length chars)\<rfloor>"
  have "0 \<le> r * 62" using assms by simp
  then have lo: "0 \<le> ?k" by (simp add: chars_length)
  have "r * 62 < 62" using assms by simp
  then have hi: "?k < 62" by (simp add: chars_length floor_less_iff)
  have "nat ?k < length chars" using lo hi unfolding chars_length by linarith
  then have "chars ! nat ?k \<in> set chars" by (rule nth_mem)
  moreover have "charAt chars ?k = [chars ! nat ?k]"
    using lo hi unfolding charAt_def chars_length by simp
  ultimately show ?thesis by blast
qed

lemma gen_loop_props:
  "\<forall>k. 0 \<le> rnd k \<and> rnd k < 1 \<Longrightarrow> 0 \<le> i \<Longrightarrow> i \<le> len \<Longrightarrow>
     length (gen_loop rnd len i result) = length result + nat (len - i) \<and>
     set (gen_loop rnd len i result) \<subseteq> set result \<union> set chars"
proof (induction rnd len i result rule: gen_loop.induct)
  case (1 rnd len i result)
  show ?case
  proof (cases "i < len")
    case True
    have "0 \<le> rnd (nat i + 1)" "rnd (nat i + 1) < 1" using "1.prems"(1) by simp_all
    then obtain c where c: "charAt chars \<lfloor>rnd (nat i + 1) * real (length chars)\<rfloor> = [c]" "c \<in> set chars"
      using charAt_chars by blast
    have ih: "length (gen_loop rnd len (i + 1) (result @ [c])) = length (result @ [c]) + nat (len - (i + 1)) \<and>
       set (gen_loop rnd len (i + 1) (result @ [c])) \<subseteq> set (result @ [c]) \<union> set chars"
      using "1.IH"[OF True "1.prems"(1)] True "1.prems"(2) c(1) by simp
    have step: "gen_loop rnd len i result = gen_loop rnd len (i + 1) (result @ [c])"
      using True c(1) by (subst gen_loop.simps) simp
    have "nat (len - i) = Suc (nat (len - (i + 1)))" using True by simp
    then show ?thesis using ih c(2) unfolding step by auto
  next
    case False
    then have "gen_loop rnd len i result = result" by (subst gen_loop.simps) simp
    then show ?thesis using False "1.prems" by simp
  qed
qed

lemma length_choice:
  assumes "0 \<le> (r::real)" "r < 1"
  shows "\<lfloor>r * 3\<rfloor> + 6 \<in> {6, 7, 8}"
proof -
  have "0 \<le> r * 3" "r * 3 < 3" using assms by simp_all
  then have "0 \<le> \<lfloor>r * 3\<rfloor>" "\<lfloor>r * 3\<rfloor> < 3" by (simp_all add: floor_less_iff)
  then have "\<lfloor>r * 3\<rfloor> = 0 \<or> \<lfloor>r * 3\<rfloor> = 1 \<or> \<lfloor>r * 3\<rfloor> = 2" by linarith
  then show ?thesis by auto
qed

lemma generateShortCode_shape:
  assumes "\<And>i. 0 \<le> rnd i" "\<And>i. rnd i < 1"
  shows "length (generateShortCode rnd) \<in> {6, 7, 8} \<and>
         set (generateShortCode rnd) \<subseteq> set chars"
proof -
  let ?len = "\<lfloor>rnd 0 * 3\<rfloor> + 6"
  have len: "?len \<in> {6, 7, 8}" using length_choice[OF assms(1) assms(2)] .
  then have "0 \<le> ?len" by auto
  from gen_loop_props[of rnd 0 ?len "[]"] assms this
  have l: "length (gen_loop rnd ?len 0 []) = nat ?len"
    and s: "set (gen_loop rnd ?len 0 []) \<subseteq> set chars"
    by simp_all
  have g: "generateShortCode rnd = gen_loop rnd ?len 0 []" by (simp add: generateShortCode_def)
  have "length (generateShortCode rnd) \<in> {6, 7, 8}" using l len unfolding g by auto
  then show ?thesis using s unfolding g by simp
qed

lemma generated_code_pattern:
  assumes "\<And>i. 0 \<le> rnd i" "\<And>i. rnd i < 1"
  shows "code_pattern (generateShortCode rnd)"
proof -
  have shape: "length (generateShortCode rnd) \<in> {6, 7, 8}"
      "set (generateShortCode rnd) \<subseteq> set chars"
    using generateShortCode_shape[of rnd] assms by simp_all
  have "list_all alnum (generateShortCode rnd)"
    using shape(2) chars_alnum by (auto simp: list_all_iff)
  then show ?thesis
    using shape(1) unfolding code_pattern_def by auto
qed

text \<open>
  C6. Whatever values in \<open>[0, 1)\<close> the random source returns, the generated code has
  length 6, 7 or 8, every character of it is taken from the alphabet \<open>chars\<close>, which has
  62 distinct characters, all of them letters or digits, and the code passes the test
  applied to custom codes.
\<close>

theorem generate_valid:
  assumes "\<And>i. 0 \<le> rnd i" "\<And>i. rnd i < 1"
  shows "length (generateShortCode rnd) \<in> {6, 7, 8} \<and>
         set (generateShortCode rnd) \<subseteq> set chars \<and>
         length chars = 62 \<and> distinct chars \<and> list_all alnum chars \<and>
         code_pattern (generateShortCode rnd)"
proof -
  have shape: "length (generateShortCode rnd) \<in> {6, 7, 8}"
      "set (generateShortCode rnd) \<subseteq> set chars"
    using generateShortCode_shape[of rnd] assms by simp_all
  have alphabet: "length chars = 62" "distinct chars" "list_all alnum chars"
    by (simp_all add: chars_def alnum_def)
  have "list_all alnum (generateShortCode rnd)"
    using shape(2) alphabet(3) by (auto simp: list_all_iff)
  then have "code_pattern (generateShortCode rnd)"
    using shape(1) unfolding code_pattern_def by auto
  then show ?thesis using shape alphabet by simp
qed

theorem generate_valid_witness:
  "generateShortCode (\<lambda>i. real (i mod 5) / 5) = ''MYlxAM'' \<and> code_pattern ''MYlxAM''"
proof -
  have e: "generateShortCode (\<lambda>i. real (i mod 5) / 5) = ''MYlxAM''"
    by (simp add: generateShortCode_def gen_loop.simps charAt_def chars_def)
  have "code_pattern (generateShortCode (\<lambda>i. real (i mod 5) / 5))"
    using generate_valid[of "\<lambda>i. real (i mod 5) / 5"] by simp
  then show ?thesis using e by simp
qed

section \<open>The redirect and the click counter\<close>

text \<open>On a table with unique codes a code selects its row and nothing else.\<close>

lemma filter_unique:
  "distinct (map short_code d) \<Longrightarrow> r \<in> set d \<Longrightarrow>
     filter (\<lambda>x. short_code x = short_code r) d = [r]"
proof (induction d)
  case Nil
  then show ?case by simp
next
  case (Cons a d)
  show ?case
  proof (cases "a = r")
    case True
    have "short_code r \<notin> short_code ` set d" using Cons.prems(1) True by simp
    then have "filter (\<lambda>x. short_code x = short_code r) d = []"
      unfolding filter_empty_conv by (metis imageI)
    then show ?thesis using True by simp
  next
    case False
    then have rd: "r \<in> set d" using Cons.prems(2) by simp
    then have "short_code a \<noteq> short_code r" using Cons.prems(1) by auto
    then show ?thesis using Cons.IH rd Cons.prems(1) by simp
  qed
qed

lemma select_by_code_unique:
  "unique_codes d \<Longrightarrow> r \<in> set d \<Longrightarrow> select_by_code (short_code r) d = Inr [r]"
  by (simp add: select_by_code_def unique_codes_def filter_unique)

lemma select_by_code_absent:
  "code \<notin> set (map short_code d) \<Longrightarrow> select_by_code code d = Inr []"
  by (auto simp: select_by_code_def filter_empty_conv)

lemma update_clicks_ok:
  assumes "unique_codes d" "r \<in> set d" "clicks r + 1 \<le> int4_max"
  shows "update_clicks now (short_code r) d =
     Inr (map (\<lambda>x. if short_code x = short_code r
                     then x\<lparr>clicks := clicks x + 1, last_clicked_at := Some now\<rparr> else x) d)"
proof -
  have "\<And>x. x \<in> set d \<Longrightarrow> short_code x = short_code r \<Longrightarrow> x = r"
    using assms(1,2) by (auto simp: unique_codes_def distinct_map inj_on_def)
  then have "\<And>x. x \<in> set d \<Longrightarrow> short_code x = short_code r \<Longrightarrow> clicks x + 1 \<le> int4_max"
    using assms(3) by blast
  then have "\<not> list_ex (\<lambda>x. short_code x = short_code r \<and> int4_max < clicks x + 1) d"
    unfolding list_ex_iff by force
  then show ?thesis by (simp add: update_clicks_def)
qed

lemma update_clicks_overflow:
  assumes "r \<in> set d" "clicks r = int4_max"
  shows "update_clicks now (short_code r) d = Inl NumericValueOutOfRange"
proof -
  have "list_ex (\<lambda>x. short_code x = short_code r \<and> int4_max < clicks x + 1) d"
    using assms by (auto simp: list_ex_iff)
  then show ?thesis by (simp add: update_clicks_def)
qed

lemma redirect_link_ok:
  assumes "unique_codes d" "r \<in> set d" "clicks r + 1 \<le> int4_max"
    and "toLowerCase (short_code r) \<notin> set reserved_paths"
  shows "redirect_link now (short_code r) d =
     (Redirect 302 (original_url r),
      map (\<lambda>x. if short_code x = short_code r
                then x\<lparr>clicks := clicks x + 1, last_clicked_at := Some now\<rparr> else x) d)"
  using assms(4) select_by_code_unique[OF assms(1,2)] update_clicks_ok[OF assms(1,2,3)]
  by (simp add: redirect_link_def)

lemma redirect_link_overflow:
  assumes "unique_codes d" "r \<in> set d" "clicks r = int4_max"
    and "toLowerCase (short_code r) \<notin> set reserved_paths"
  shows "redirect_link now (short_code r) d = (internal_error, d)"
  using assms(4) select_by_code_unique[OF assms(1,2)] update_clicks_overflow[OF assms(2,3)]
  by (simp add: redirect_link_def)

lemma unique_codes_map:
  "(\<And>x. short_code (f x) = short_code x) \<Longrightarrow> unique_codes (map f d) = unique_codes d"
  by (simp add: unique_codes_def comp_def)

lemma redirect_seq_ok:
  "unique_codes d \<Longrightarrow> r \<in> set d \<Longrightarrow> clicks r + int (length ts) \<le> int4_max \<Longrightarrow>
   toLowerCase (short_code r) \<notin> set reserved_paths \<Longrightarrow>
   redirect_seq (short_code r) ts d =
     (replicate (length ts) (Redirect 302 (original_url r)),
      map (\<lambda>x. if short_code x = short_code r
                then x\<lparr>clicks := clicks x + int (length ts),
                       last_clicked_at := (if ts = [] then last_clicked_at x else Some (last ts))\<rparr>
                else x) d)"
proof (induction ts arbitrary: d r)
  case Nil
  have "map (\<lambda>x. if short_code x = short_code r
                then x\<lparr>clicks := clicks x + int (length ([]::timestamp list)),
                       last_clicked_at := (if ([]::timestamp list) = [] then last_clicked_at x else Some (last []))\<rparr>
                else x) d = d"
    by (simp add: map_idI)
  then show ?case by simp
next
  case (Cons t ts)
  let ?f = "\<lambda>x. if short_code x = short_code r
                then x\<lparr>clicks := clicks x + 1, last_clicked_at := Some t\<rparr> else x"
  let ?r' = "r\<lparr>clicks := clicks r + 1, last_clicked_at := Some t\<rparr>"
  have one: "redirect_link t (short_code r) d = (Redirect 302 (original_url r), map ?f d)"
    using Cons.prems by (intro redirect_link_ok) simp_all
  have u': "unique_codes (map ?f d)"
    using Cons.prems(1) by (subst unique_codes_map) simp_all
  have r': "?r' \<in> set (map ?f d)"
    using Cons.prems(2) by (auto simp: image_iff intro!: bexI[of _ r])
  have c': "clicks ?r' + int (length ts) \<le> int4_max" using Cons.prems(3) by simp
  have rs': "toLowerCase (short_code ?r') \<notin> set reserved_paths" using Cons.prems(4) by simp
  have ih: "redirect_seq (short_code r) ts (map ?f d) =
     (replicate (length ts) (Redirect 302 (original_url r)),
      map (\<lambda>x. if short_code x = short_code r
                then x\<lparr>clicks := clicks x + int (length ts),
                       last_clicked_at := (if ts = [] then last_clicked_at x else Some (last ts))\<rparr>
                else x) (map ?f d))"
    using Cons.IH[OF u' r' c' rs'] by simp
  let ?g = "\<lambda>x. if short_code x = short_code r
                then x\<lparr>clicks := clicks x + int (length ts),
                       last_clicked_at := (if ts = [] then last_clicked_at x else Some (last ts))\<rparr>
                else x"
  have comp: "map ?g (map ?f d) =
      map (\<lambda>x. if short_code x = short_code r
                then x\<lparr>clicks := clicks x + int (length (t # ts)),
                       last_clicked_at := (if t # ts = [] then last_clicked_at x else Some (last (t # ts)))\<rparr>
                else x) d"
    by (rule trans[OF map_map]) (rule map_cong, simp_all)
  have "redirect_seq (short_code r) (t # ts) d =
      (Redirect 302 (original_url r) # replicate (length ts) (Redirect 302 (original_url r)),
       map ?g (map ?f d))"
    by (simp only: redirect_seq.simps one ih prod.case)
  then show ?case unfolding comp by simp
qed

lemma redirect_seq_append:
  "redirect_seq code (ts @ us) d =
     (case redirect_seq code ts d of
        (rs, d') \<Rightarrow> (case redirect_seq code us d' of (rs', d'') \<Rightarrow> (rs @ rs', d'')))"
  by (induction ts arbitrary: d) (auto split: prod.splits)

lemma get_link_unique:
  "unique_codes d \<Longrightarrow> r \<in> set d \<Longrightarrow>
     get_link (short_code r) d = (Json 200 (Row (columns all_columns r)), d)"
  by (simp add: get_link_def select_by_code_unique)

lemma columns_all:
  "columns all_columns r =
     [(''short_code'', SqlText (short_code r)), (''original_url'', SqlText (original_url r)),
      (''clicks'', SqlInt (clicks r)),
      (''last_clicked_at'', (case last_clicked_at r of None \<Rightarrow> SqlNull | Some t \<Rightarrow> SqlTime t)),
      (''created_at'', SqlTime (created_at r))]"
  by (simp add: columns_def all_columns_def column_def)

text \<open>
  C1, as amended. Take a table with unique codes and in it a link with \<open>clicks = 0\<close>
  whose code is not one of the reserved paths (\<open>api\<close>, \<open>healthz\<close>, \<open>code\<close>, \<open>public\<close>,
  compared in lower case). Then \<open>n\<close> redirects of that code in a row, \<open>1 \<le> n \<le> 2147483647\<close>,
  at the times \<open>ts\<close>, each answer 302 with the stored URL, and the link read afterwards
  has \<open>clicks = n\<close> and \<open>last_clicked_at\<close> equal to the time of the last redirect.
\<close>

theorem redirect_counts_clicks:
  assumes "unique_codes d" and "r \<in> set d" and "clicks r = 0"
    and "toLowerCase (short_code r) \<notin> set reserved_paths"
    and "ts \<noteq> []" and "int (length ts) \<le> int4_max"
  shows "fst (redirect_seq (short_code r) ts d) =
           replicate (length ts) (Redirect 302 (original_url r)) \<and>
         fst (get_link (short_code r) (snd (redirect_seq (short_code r) ts d))) =
           Json 200 (Row
             [(''short_code'', SqlText (short_code r)),
              (''original_url'', SqlText (original_url r)),
              (''clicks'', SqlInt (int (length ts))),
              (''last_clicked_at'', SqlTime (last ts)),
              (''created_at'', SqlTime (created_at r))])"
proof -
  let ?f = "\<lambda>x. if short_code x = short_code r
                then x\<lparr>clicks := clicks x + int (length ts),
                       last_clicked_at := (if ts = [] then last_clicked_at x else Some (last ts))\<rparr>
                else x"
  let ?r' = "r\<lparr>clicks := int (length ts), last_clicked_at := Some (last ts)\<rparr>"
  have seq: "redirect_seq (short_code r) ts d =
      (replicate (length ts) (Redirect 302 (original_url r)), map ?f d)"
    using assms by (intro redirect_seq_ok) simp_all
  have u': "unique_codes (map ?f d)"
    using assms(1) by (subst unique_codes_map) simp_all
  have fr: "?f r = ?r'" using assms(3,5) by simp
  have "?f r \<in> ?f ` set d" using assms(2) by (rule imageI)
  then have r': "?r' \<in> set (map ?f d)" unfolding fr by (simp only: set_map)
  have "get_link (short_code ?r') (map ?f d) = (Json 200 (Row (columns all_columns ?r')), map ?f d)"
    using u' r' by (rule get_link_unique)
  then have "fst (get_link (short_code r) (map ?f d)) = Json 200 (Row (columns all_columns ?r'))"
    by simp
  then show ?thesis unfolding seq columns_all by simp
qed

text \<open>Three redirects of \<open>mycode1\<close> at the times 3, 4 and 8.\<close>

theorem redirect_counts_clicks_witness:
  "fst (redirect_seq ''mycode1'' [3, 4, 8]
      [\<lparr>short_code = ''mycode1'', original_url = ''https://example.com'', clicks = 0,
         last_clicked_at = None, created_at = 1\<rparr>]) =
     [Redirect 302 ''https://example.com'', Redirect 302 ''https://example.com'',
      Redirect 302 ''https://example.com''] \<and>
   fst (get_link ''mycode1'' (snd (redirect_seq ''mycode1'' [3, 4, 8]
      [\<lparr>short_code = ''mycode1'', original_url = ''https://example.com'', clicks = 0,
         last_clicked_at = None, created_at = 1\<rparr>]))) =
     Json 200 (Row [(''short_code'', SqlText ''mycode1''),
       (''original_url'', SqlText ''https://example.com''), (''clicks'', SqlInt 3),
       (''last_clicked_at'', SqlTime 8), (''created_at'', SqlTime 1)])"
proof -
  let ?r = "\<lparr>short_code = ''mycode1'', original_url = ''https://example.com'', clicks = 0,
         last_clicked_at = None, created_at = 1\<rparr>"
  have h1: "unique_codes [?r]" by (simp add: unique_codes_def)
  have h2: "?r \<in> set [?r]" by simp
  have h3: "clicks ?r = 0" by simp
  have h4: "toLowerCase (short_code ?r) \<notin> set reserved_paths"
    by (simp add: toLowerCase_def lower_char_def reserved_paths_def)
  have h5: "[3, 4, 8 :: timestamp] \<noteq> []" by simp
  have h6: "int (length [3, 4, 8 :: timestamp]) \<le> int4_max" by (simp add: int4_max_def)
  have e: "replicate (length [3, 4, 8 :: timestamp]) (Redirect 302 ''https://example.com'') =
      [Redirect 302 ''https://example.com'', Redirect 302 ''https://example.com'',
       Redirect 302 ''https://example.com'']"
    by (simp add: numeral_3_eq_3)
  show ?thesis
    using redirect_counts_clicks[OF h1 h2 h3 h4 h5 h6] unfolding e by simp
qed

text \<open>
  C1 as stated fails for two kinds of input. A link with the code \<open>public\<close>, which
  passes the test for custom codes, is never reached: the redirect answers 302 to \<open>/\<close>
  and leaves the counter alone. And the counter is a four-byte integer: after 2147483647
  redirects the next \<open>UPDATE\<close> fails, the handler answers 500 and the counter stays.
\<close>

lemma redirect_reserved_example:
  "code_pattern ''public'' \<and>
   redirect_seq ''public'' [5]
     [\<lparr>short_code = ''public'', original_url = ''https://example.com'', clicks = 0,
        last_clicked_at = None, created_at = 1\<rparr>] =
   ([Redirect 302 ''/''],
     [\<lparr>short_code = ''public'', original_url = ''https://example.com'', clicks = 0,
        last_clicked_at = None, created_at = 1\<rparr>])"
  by (simp add: redirect_link_def toLowerCase_def lower_char_def reserved_paths_def
    select_by_code_def update_clicks_def int4_max_def get_link_def columns_def column_def
    all_columns_def code_pattern_def alnum_def unique_codes_def internal_error_def)

lemma redirect_overflow_example:
  "redirect_seq ''mycode1'' (replicate 2147483648 9)
     [\<lparr>short_code = ''mycode1'', original_url = ''https://example.com'', clicks = 0,
        last_clicked_at = None, created_at = 1\<rparr>] =
   (replicate 2147483647 (Redirect 302 ''https://example.com'') @
      [Json 500 (ErrorBody ''Internal server error'')],
     [\<lparr>short_code = ''mycode1'', original_url = ''https://example.com'', clicks = 2147483647,
        last_clicked_at = Some 9, created_at = 1\<rparr>])"
proof -
  let ?r = "\<lparr>short_code = ''mycode1'', original_url = ''https://example.com'', clicks = 0,
        last_clicked_at = None, created_at = 1\<rparr>"
  let ?r' = "\<lparr>short_code = ''mycode1'', original_url = ''https://example.com'', clicks = 2147483647,
        last_clicked_at = Some (9::nat), created_at = 1\<rparr>"
  let ?ts = "replicate 2147483647 (9::nat)"
  have ne: "?ts \<noteq> []" by (simp add: replicate_empty)
  have la: "last ?ts = 9" using ne by (simp only: last_replicate)
  have "redirect_seq (short_code ?r) ?ts [?r] =
     (replicate (length ?ts) (Redirect 302 (original_url ?r)),
      map (\<lambda>x. if short_code x = short_code ?r
                then x\<lparr>clicks := clicks x + int (length ?ts),
                       last_clicked_at := (if ?ts = [] then last_clicked_at x else Some (last ?ts))\<rparr>
                else x) [?r])"
    by (rule redirect_seq_ok)
       (simp_all add: unique_codes_def int4_max_def toLowerCase_def lower_char_def reserved_paths_def)
  then have first: "redirect_seq ''mycode1'' ?ts [?r] =
      (replicate 2147483647 (Redirect 302 ''https://example.com''), [?r'])"
    using ne la by simp
  have nxt: "redirect_seq ''mycode1'' [9] [?r'] =
      ([Json 500 (ErrorBody ''Internal server error'')], [?r'])"
    by (simp add: redirect_link_def toLowerCase_def lower_char_def reserved_paths_def
    select_by_code_def update_clicks_def int4_max_def get_link_def columns_def column_def
    all_columns_def code_pattern_def alnum_def unique_codes_def internal_error_def)
  have "Suc 2147483647 = 2147483648" by simp
  then have "replicate 2147483648 (9::nat) = ?ts @ [9]"
    by (metis replicate_Suc replicate_append_same)
  then show ?thesis
    by (simp only: redirect_seq_append first nxt prod.case)
qed

theorem redirect_counts_clicks_counterexample:
  "(code_pattern ''public'' \<and>
    redirect_seq ''public'' [5]
      [\<lparr>short_code = ''public'', original_url = ''https://example.com'', clicks = 0,
         last_clicked_at = None, created_at = 1\<rparr>] =
    ([Redirect 302 ''/''],
      [\<lparr>short_code = ''public'', original_url = ''https://example.com'', clicks = 0,
         last_clicked_at = None, created_at = 1\<rparr>])) \<and>
   redirect_seq ''mycode1'' (replicate 2147483648 9)
     [\<lparr>short_code = ''mycode1'', original_url = ''https://example.com'', clicks = 0,
        last_clicked_at = None, created_at = 1\<rparr>] =
   (replicate 2147483647 (Redirect 302 ''https://example.com'') @
      [Json 500 (ErrorBody ''Internal server error'')],
     [\<lparr>short_code = ''mycode1'', original_url = ''https://example.com'', clicks = 2147483647,
        last_clicked_at = Some 9, created_at = 1\<rparr>])"
  using redirect_reserved_example redirect_overflow_example by (rule conjI)

section \<open>Concurrent redirects\<close>

text \<open>A call taken alone through its two steps is the handler.\<close>

lemma step_twice_is_handler:
  "run_schedule code [(0, t0), (0, t)] ([Start], d) =
     ([Finished (fst (redirect_link t code d))], snd (redirect_link t code d))"
  by (auto simp: redirect_step_def redirect_link_def select_by_code_def
        split: sum.splits list.splits)

lemma filter_update_length:
  "i < length xs \<Longrightarrow>
     length (filter P (xs[i := x])) + (if P (xs ! i) then 1 else 0) =
     length (filter P xs) + (if P x then 1 else 0)"
proof (induction xs arbitrary: i)
  case Nil
  then show ?case by simp
next
  case (Cons a xs)
  show ?case
  proof (cases i)
    case 0
    then show ?thesis by simp
  next
    case (Suc j)
    then have "j < length xs" using Cons.prems by simp
    from Cons.IH[OF this] show ?thesis using Suc by simp
  qed
qed

lemma unfinished_count:
  assumes "i < length cs" and "\<not> finished (cs ! i)"
  shows "length (filter finished cs) < length cs"
proof -
  have "cs ! i \<in> set cs" using assms(1) by (rule nth_mem)
  then show ?thesis using assms(2) by (rule length_filter_less)
qed

lemma redirect_step_keeps:
  assumes inv: "redirects_inv code u n cs d"
    and res: "toLowerCase code \<notin> set reserved_paths"
    and i: "i < length cs"
    and st: "redirect_step code now (cs ! i) d = (c', d')"
  shows "redirects_inv code u n (cs[i := c']) d'"
proof -
  have uniq: "unique_codes d" using inv by (simp add: redirects_inv_def)
  obtain r where r: "r \<in> set d" "short_code r = code" "original_url r = u"
      "clicks r = n + int (length (filter finished cs))"
    using inv by (auto simp: redirects_inv_def list_ex_iff)
  have forms: "list_all (\<lambda>c. case c of Start \<Rightarrow> True
                     | Found row \<Rightarrow> original_url row = u
                     | Finished r \<Rightarrow> r = Redirect 302 u) cs"
    using inv by (simp add: redirects_inv_def)
  have room: "n + int (length cs) \<le> int4_max" using inv by (simp add: redirects_inv_def)
  have sel: "select_by_code code d = Inr [r]"
    using select_by_code_unique[OF uniq r(1)] r(2) by simp
  have here: "(case cs ! i of Start \<Rightarrow> True
                     | Found row \<Rightarrow> original_url row = u
                     | Finished r \<Rightarrow> r = Redirect 302 u)"
    using forms i by (simp add: list_all_length)
  show ?thesis
  proof (cases "cs ! i")
    case Start
    then have c': "c' = Found r" "d' = d" using st res sel by (simp_all add: redirect_step_def)
    have cnt: "length (filter finished (cs[i := c'])) = length (filter finished cs)"
      using filter_update_length[OF i, of finished c'] Start c'(1) by simp
    have forms': "list_all (\<lambda>c. case c of Start \<Rightarrow> True
                     | Found row \<Rightarrow> original_url row = u
                     | Finished r \<Rightarrow> r = Redirect 302 u) (cs[i := c'])"
      using forms c'(1) r(3) by (auto simp: list_all_iff dest!: set_update_subset_insert[THEN subsetD])
    show ?thesis
      unfolding redirects_inv_def cnt c'(2)
      using uniq r forms' room by (auto simp: list_ex_iff)
  next
    case (Found row)
    have u_row: "original_url row = u" using here Found by simp
    have "\<not> finished (cs ! i)" using Found by simp
    then have less: "length (filter finished cs) < length cs" using unfinished_count[OF i] by simp
    have ok: "clicks r + 1 \<le> int4_max" using r(4) less room by linarith
    let ?f = "\<lambda>x. if short_code x = short_code r
                 then x\<lparr>clicks := clicks x + 1, last_clicked_at := Some now\<rparr> else x"
    have upd: "update_clicks now code d = Inr (map ?f d)"
      using update_clicks_ok[OF uniq r(1) ok] r(2) by simp
    have c': "c' = Finished (Redirect 302 u)" "d' = map ?f d"
      using st Found upd u_row by (simp_all add: redirect_step_def)
    have cnt: "length (filter finished (cs[i := c'])) = length (filter finished cs) + 1"
      using filter_update_length[OF i, of finished c'] Found c'(1) by simp
    have forms': "list_all (\<lambda>c. case c of Start \<Rightarrow> True
                     | Found row \<Rightarrow> original_url row = u
                     | Finished r \<Rightarrow> r = Redirect 302 u) (cs[i := c'])"
      using forms c'(1) by (auto simp: list_all_iff dest!: set_update_subset_insert[THEN subsetD])
    have uniq': "unique_codes (map ?f d)" using uniq by (subst unique_codes_map) simp_all
    have "?f r \<in> ?f ` set d" using r(1) by (rule imageI)
    then have r': "?f r \<in> set (map ?f d)" by (simp only: set_map)
    have "short_code (?f r) = code \<and> original_url (?f r) = u \<and>
        clicks (?f r) = n + int (length (filter finished cs) + 1)"
      using r(2,3,4) by simp
    then have ex: "list_ex (\<lambda>r. short_code r = code \<and> original_url r = u \<and>
                    clicks r = n + int (length (filter finished cs) + 1)) (map ?f d)"
      unfolding list_ex_iff using r' by blast
    show ?thesis
      unfolding redirects_inv_def cnt c'(2)
      using uniq' ex forms' room by simp
  next
    case (Finished resp)
    then have c': "c' = cs ! i" "d' = d" using st by (simp_all add: redirect_step_def)
    have "cs[i := c'] = cs" unfolding c'(1) by (rule list_update_id)
    then show ?thesis using inv c'(2) by simp
  qed
qed

lemma run_schedule_keeps:
  "redirects_inv code u n cs d \<Longrightarrow> toLowerCase code \<notin> set reserved_paths \<Longrightarrow>
     run_schedule code sched (cs, d) = (cs', d') \<Longrightarrow>
     redirects_inv code u n cs' d' \<and> length cs' = length cs"
proof (induction sched arbitrary: cs d)
  case Nil
  then show ?case by simp
next
  case (Cons a sched)
  obtain i now where a: "a = (i, now)" by (cases a)
  show ?case
  proof (cases "i < length cs")
    case True
    obtain c1 d1 where st: "redirect_step code now (cs ! i) d = (c1, d1)"
      by (cases "redirect_step code now (cs ! i) d")
    have inv1: "redirects_inv code u n (cs[i := c1]) d1"
      using redirect_step_keeps[OF Cons.prems(1,2) True st] .
    have "run_schedule code sched (cs[i := c1], d1) = (cs', d')"
      using Cons.prems(3) a True st by simp
    from Cons.IH[OF inv1 Cons.prems(2) this] show ?thesis by simp
  next
    case False
    then have "run_schedule code sched (cs, d) = (cs', d')" using Cons.prems(3) a by simp
    from Cons.IH[OF Cons.prems(1,2) this] show ?thesis .
  qed
qed

lemma redirects_inv_start:
  assumes "unique_codes d" and "r \<in> set d" and "clicks r + int k \<le> int4_max"
  shows "redirects_inv (short_code r) (original_url r) (clicks r) (replicate k Start) d"
  using assms by (auto simp: redirects_inv_def list_ex_iff list_all_iff)

lemma body_field_get_link:
  "unique_codes d \<Longrightarrow> r \<in> set d \<Longrightarrow>
     body_field (fst (get_link (short_code r) d)) ''clicks'' = Some (SqlInt (clicks r))"
  by (simp add: get_link_unique columns_all)

lemma redirect_step_progress:
  assumes inv: "redirects_inv code u n cs d"
    and res: "toLowerCase code \<notin> set reserved_paths"
    and i: "i < length cs"
    and st: "redirect_step code now (cs ! i) d = (c', d')"
  shows "progress c' = min 2 (progress (cs ! i) + 1)"
proof -
  have uniq: "unique_codes d" using inv by (simp add: redirects_inv_def)
  obtain r where r: "r \<in> set d" "short_code r = code"
      "clicks r = n + int (length (filter finished cs))"
    using inv by (auto simp: redirects_inv_def list_ex_iff)
  have room: "n + int (length cs) \<le> int4_max" using inv by (simp add: redirects_inv_def)
  show ?thesis
  proof (cases "cs ! i")
    case Start
    have "select_by_code code d = Inr [r]"
      using select_by_code_unique[OF uniq r(1)] r(2) by simp
    then have "c' = Found r" using st res Start by (simp add: redirect_step_def)
    then show ?thesis using Start by simp
  next
    case (Found row)
    then have "\<not> finished (cs ! i)" by simp
    then have "length (filter finished cs) < length cs" using unfinished_count[OF i] by simp
    then have "clicks r + 1 \<le> int4_max" using r(3) room by linarith
    from update_clicks_ok[OF uniq r(1) this, of now]
    have "\<exists>d1. update_clicks now code d = Inr d1" using r(2) by simp
    then have "finished c'" using st Found by (auto simp: redirect_step_def)
    then show ?thesis using Found by (cases c') simp_all
  next
    case (Finished resp)
    then have "c' = Finished resp" using st by (simp add: redirect_step_def)
    then show ?thesis using Finished by simp
  qed
qed

lemma run_schedule_progress:
  "redirects_inv code u n cs d \<Longrightarrow> toLowerCase code \<notin> set reserved_paths \<Longrightarrow>
     run_schedule code sched (cs, d) = (cs', d') \<Longrightarrow> i < length cs \<Longrightarrow>
     min 2 (progress (cs ! i) + count_list (map fst sched) i) \<le> progress (cs' ! i)"
proof (induction sched arbitrary: cs d)
  case Nil
  then show ?case by simp
next
  case (Cons a sched)
  obtain j now where a: "a = (j, now)" by (cases a)
  show ?case
  proof (cases "j < length cs")
    case True
    obtain c1 d1 where st: "redirect_step code now (cs ! j) d = (c1, d1)"
      by (cases "redirect_step code now (cs ! j) d")
    have inv1: "redirects_inv code u n (cs[j := c1]) d1"
      using redirect_step_keeps[OF Cons.prems(1,2) True st] .
    have run1: "run_schedule code sched (cs[j := c1], d1) = (cs', d')"
      using Cons.prems(3) a True st by simp
    have i1: "i < length (cs[j := c1])" using Cons.prems(4) by simp
    have ih: "min 2 (progress (cs[j := c1] ! i) + count_list (map fst sched) i)
        \<le> progress (cs' ! i)"
      using Cons.IH[OF inv1 Cons.prems(2) run1 i1] .
    show ?thesis
    proof (cases "j = i")
      case True
      have "progress c1 = min 2 (progress (cs ! i) + 1)"
        using redirect_step_progress[OF Cons.prems(1,2) Cons.prems(4)] st True by simp
      then show ?thesis using ih a True Cons.prems(4) by simp
    next
      case False
      then show ?thesis using ih a by simp
    qed
  next
    case False
    then have run1: "run_schedule code sched (cs, d) = (cs', d')" using Cons.prems(3) a by simp
    have "j \<noteq> i" using False Cons.prems(4) by auto
    then show ?thesis using Cons.IH[OF Cons.prems(1,2) run1 Cons.prems(4)] a by simp
  qed
qed

lemma progress_finished: "2 \<le> progress c \<Longrightarrow> finished c"
  by (cases c) simp_all

text \<open>
  C4, as amended. Take a table with unique codes and in it a link whose code is not a
  reserved path and whose counter has room for \<open>k\<close> more clicks (at most 2147483647
  afterwards). Start \<open>k \<ge> 1\<close> concurrent redirects of that code, every SQL statement being
  one atomic step, and let them run in any interleaving in which each call takes its two
  steps. Then every call answers 302 with the stored URL and the link read afterwards
  has its counter larger by exactly \<open>k\<close>: no update is lost and none counted twice.
\<close>

theorem concurrent_redirects_count:
  assumes "unique_codes d" and "r \<in> set d"
    and "toLowerCase (short_code r) \<notin> set reserved_paths"
    and "1 \<le> k" and "clicks r + int k \<le> int4_max"
    and "\<forall>i<k. 2 \<le> count_list (map fst sched) i"
  shows "fst (run_schedule (short_code r) sched (replicate k Start, d)) =
           replicate k (Finished (Redirect 302 (original_url r))) \<and>
         body_field (fst (get_link (short_code r)
             (snd (run_schedule (short_code r) sched (replicate k Start, d))))) ''clicks'' =
           Some (SqlInt (clicks r + int k))"
proof -
  obtain cs' d' where run: "run_schedule (short_code r) sched (replicate k Start, d) = (cs', d')"
    by (cases "run_schedule (short_code r) sched (replicate k Start, d)")
  have inv0: "redirects_inv (short_code r) (original_url r) (clicks r) (replicate k Start) d"
    using assms(1,2,5) by (rule redirects_inv_start)
  have inv: "redirects_inv (short_code r) (original_url r) (clicks r) cs' d'"
    and len: "length cs' = k"
    using run_schedule_keeps[OF inv0 assms(3) run] by simp_all
  have fin: "finished (cs' ! i)" if i: "i < k" for i
  proof -
    have "i < length (replicate k Start)" using i by simp
    from run_schedule_progress[OF inv0 assms(3) run this]
    have "min 2 (count_list (map fst sched) i) \<le> progress (cs' ! i)" using i by simp
    moreover have "2 \<le> count_list (map fst sched) i" using assms(6) i by simp
    ultimately have "2 \<le> progress (cs' ! i)" by simp
    then show ?thesis by (rule progress_finished)
  qed
  have allf: "list_all finished cs'" unfolding list_all_length using fin len by simp
  then have all: "filter finished cs' = cs'" by (simp add: list_all_iff)
  obtain r' where r': "r' \<in> set d'" "short_code r' = short_code r"
      "clicks r' = clicks r + int k"
    using inv unfolding redirects_inv_def list_ex_iff all len by blast
  have uniq': "unique_codes d'" using inv by (simp add: redirects_inv_def)
  have clicks: "body_field (fst (get_link (short_code r) d')) ''clicks'' =
           Some (SqlInt (clicks r + int k))"
    using body_field_get_link[OF uniq' r'(1)] r'(2,3) by simp
  have "c = Finished (Redirect 302 (original_url r))" if c: "c \<in> set cs'" for c
  proof -
    have "finished c" using allf c by (simp add: list_all_iff)
    moreover have "case c of Start \<Rightarrow> True
                     | Found row \<Rightarrow> original_url row = original_url r
                     | Finished resp \<Rightarrow> resp = Redirect 302 (original_url r)"
      using inv c by (simp add: redirects_inv_def list_all_iff)
    ultimately show ?thesis by (cases c) simp_all
  qed
  then have "cs' = replicate (length cs') (Finished (Redirect 302 (original_url r)))"
    by (simp add: replicate_length_same)
  then show ?thesis unfolding run using len clicks by simp
qed

text \<open>
  Two calls whose \<open>SELECT\<close>s both come before either \<open>UPDATE\<close>: the counter goes from
  0 to 2.
\<close>

theorem concurrent_redirects_count_witness:
  "fst (run_schedule ''mycode1'' [(0, 3), (1, 4), (1, 6), (0, 8)]
      (replicate 2 Start,
       [\<lparr>short_code = ''mycode1'', original_url = ''https://example.com'', clicks = 0,
          last_clicked_at = None, created_at = 1\<rparr>])) =
     replicate 2 (Finished (Redirect 302 ''https://example.com'')) \<and>
   body_field (fst (get_link ''mycode1''
      (snd (run_schedule ''mycode1'' [(0, 3), (1, 4), (1, 6), (0, 8)]
        (replicate 2 Start,
         [\<lparr>short_code = ''mycode1'', original_url = ''https://example.com'', clicks = 0,
            last_clicked_at = None, created_at = 1\<rparr>]))))) ''clicks'' =
     Some (SqlInt 2)"
proof -
  let ?r = "\<lparr>short_code = ''mycode1'', original_url = ''https://example.com'', clicks = 0,
         last_clicked_at = None, created_at = 1\<rparr>"
  let ?sched = "[(0, 3), (1, 4), (1, 6), (0, 8)] :: (nat \<times> timestamp) list"
  have h1: "unique_codes [?r]" by (simp add: unique_codes_def)
  have h2: "?r \<in> set [?r]" by simp
  have h3: "toLowerCase (short_code ?r) \<notin> set reserved_paths"
    by (simp add: toLowerCase_def lower_char_def reserved_paths_def)
  have h4: "(1::nat) \<le> 2" by simp
  have h5: "clicks ?r + int 2 \<le> int4_max" by (simp add: int4_max_def)
  have h6: "\<forall>i<2. 2 \<le> count_list (map fst ?sched) i"
    by (simp add: less_2_cases_iff)
  show ?thesis
    using concurrent_redirects_count[OF h1 h2 h3 h4 h5 h6] by simp
qed

text \<open>
  C4 as stated fails already for one call, \<open>k = 1\<close>: for the link with the code
  \<open>public\<close> the call answers 302 to \<open>/\<close> and counts nothing, and for a link whose counter
  is 2147483647 the \<open>UPDATE\<close> fails, the call answers 500 and the counter stays.
\<close>

theorem concurrent_redirects_count_counterexample:
  "run_schedule ''public'' [(0, 5), (0, 6)]
     (replicate 1 Start,
      [\<lparr>short_code = ''public'', original_url = ''https://example.com'', clicks = 0,
         last_clicked_at = None, created_at = 1\<rparr>]) =
   ([Finished (Redirect 302 ''/'')],
    [\<lparr>short_code = ''public'', original_url = ''https://example.com'', clicks = 0,
        last_clicked_at = None, created_at = 1\<rparr>]) \<and>
   run_schedule ''mycode1'' [(0, 5), (0, 6)]
     (replicate 1 Start,
      [\<lparr>short_code = ''mycode1'', original_url = ''https://example.com'',
         clicks = 2147483647, last_clicked_at = Some 4, created_at = 1\<rparr>]) =
   ([Finished (Json 500 (ErrorBody ''Internal server error''))],
    [\<lparr>short_code = ''mycode1'', original_url = ''https://example.com'',
        clicks = 2147483647, last_clicked_at = Some 4, created_at = 1\<rparr>])"
  by (simp add: redirect_step_def toLowerCase_def lower_char_def reserved_paths_def
        select_by_code_def update_clicks_def int4_max_def internal_error_def)

section \<open>Creating links\<close>

lemma code_pattern_length: "code_pattern c \<Longrightarrow> c \<noteq> [] \<and> length c \<le> 10"
  by (auto simp: code_pattern_def)

lemma select_by_code_present:
  "code \<in> set (map short_code d) \<Longrightarrow> \<exists>x xs. select_by_code code d = Inr (x # xs)"
proof -
  assume "code \<in> set (map short_code d)"
  then have "filter (\<lambda>r. short_code r = code) d \<noteq> []"
    unfolding filter_empty_conv by auto
  then show ?thesis
    by (cases "filter (\<lambda>r. short_code r = code) d") (simp_all add: select_by_code_def)
qed

lemma insert_link_ok:
  "length code \<le> 10 \<Longrightarrow> code \<notin> set (map short_code d) \<Longrightarrow>
     insert_link now code u d =
       Inr (\<lparr>short_code = code, original_url = u, clicks = 0, last_clicked_at = None,
              created_at = now\<rparr>,
            d @ [\<lparr>short_code = code, original_url = u, clicks = 0, last_clicked_at = None,
              created_at = now\<rparr>])"
  by (simp add: insert_link_def Let_def)

lemma columns_created:
  "columns [''short_code'', ''original_url'', ''clicks'', ''created_at''] r =
     [(''short_code'', SqlText (short_code r)), (''original_url'', SqlText (original_url r)),
      (''clicks'', SqlInt (clicks r)), (''created_at'', SqlTime (created_at r))]"
  by (simp add: columns_def column_def)

text \<open>The code the handler goes on with, once the URL has passed.\<close>

lemma create_link_stores:
  assumes "u \<noteq> []" and "isURL u"
    and "cc = Some code \<and> code \<noteq> [] \<and> code_pattern code \<or>
         (cc = None \<or> cc = Some []) \<and> code = generateShortCode rnd"
    and "length code \<le> 10" and "code \<notin> set (map short_code d)"
  shows "create_link isURL rnd now (Some u) cc d =
     (Json 201 (Row [(''short_code'', SqlText code), (''original_url'', SqlText u),
                     (''clicks'', SqlInt 0), (''created_at'', SqlTime now)]),
      d @ [\<lparr>short_code = code, original_url = u, clicks = 0, last_clicked_at = None,
              created_at = now\<rparr>])"
proof -
  have sel: "select_by_code code d = Inr []" using assms(5) by (rule select_by_code_absent)
  have ins: "insert_link now code u d =
       Inr (\<lparr>short_code = code, original_url = u, clicks = 0, last_clicked_at = None,
              created_at = now\<rparr>,
            d @ [\<lparr>short_code = code, original_url = u, clicks = 0, last_clicked_at = None,
              created_at = now\<rparr>])"
    using assms(4,5) by (rule insert_link_ok)
  from assms(3) show ?thesis
  proof (elim disjE conjE)
    assume "cc = Some code" "code \<noteq> []" "code_pattern code"
    then show ?thesis using assms(1,2) sel ins
      by (simp add: create_link_def columns_created)
  next
    assume "cc = None" "code = generateShortCode rnd"
    then show ?thesis using assms(1,2) sel ins
      by (simp add: create_link_def columns_created)
  next
    assume "cc = Some []" "code = generateShortCode rnd"
    then show ?thesis using assms(1,2) sel ins
      by (simp add: create_link_def columns_created)
  qed
qed

lemma create_link_conflict:
  assumes "u \<noteq> []" and "isURL u"
    and "cc = Some code \<and> code \<noteq> [] \<and> code_pattern code \<or>
         (cc = None \<or> cc = Some []) \<and> code = generateShortCode rnd"
    and "code \<in> set (map short_code d)"
  shows "create_link isURL rnd now (Some u) cc d =
     (Json 409 (ErrorBody ''409 Custom code already exists''), d)"
proof -
  obtain x xs where sel: "select_by_code code d = Inr (x # xs)"
    using select_by_code_present[OF assms(4)] by blast
  from assms(3) show ?thesis
  proof (elim disjE conjE)
    assume "cc = Some code" "code \<noteq> []" "code_pattern code"
    then show ?thesis using assms(1,2) sel by (simp add: create_link_def)
  next
    assume "cc = None" "code = generateShortCode rnd"
    then show ?thesis using assms(1,2) sel by (simp add: create_link_def)
  next
    assume "cc = Some []" "code = generateShortCode rnd"
    then show ?thesis using assms(1,2) sel by (simp add: create_link_def)
  qed
qed

lemma create_link_bad_url:
  "url = None \<or> url = Some [] \<or> (\<exists>u. url = Some u \<and> \<not> isURL u) \<Longrightarrow>
     create_link isURL rnd now url cc d =
       (Json 400 (ErrorBody ''Invalid URL. Please include http:// or https://''), d)"
  by (auto simp: create_link_def)

lemma create_link_bad_code:
  "u \<noteq> [] \<Longrightarrow> isURL u \<Longrightarrow> c \<noteq> [] \<Longrightarrow> \<not> code_pattern c \<Longrightarrow>
     create_link isURL rnd now (Some u) (Some c) d =
       (Json 400 (ErrorBody
          ''Custom code must be 6-8 characters and contain only letters and numbers''), d)"
  by (simp add: create_link_def)

lemma get_link_created:
  assumes "code \<notin> set (map short_code d)"
  shows "get_link code (d @ [\<lparr>short_code = code, original_url = u, clicks = 0,
             last_clicked_at = None, created_at = now\<rparr>]) =
     (Json 200 (Row [(''short_code'', SqlText code), (''original_url'', SqlText u),
        (''clicks'', SqlInt 0), (''last_clicked_at'', SqlNull), (''created_at'', SqlTime now)]),
      d @ [\<lparr>short_code = code, original_url = u, clicks = 0,
             last_clicked_at = None, created_at = now\<rparr>])"
proof -
  have "filter (\<lambda>r. short_code r = code) d = []"
    using assms unfolding filter_empty_conv by auto
  then show ?thesis by (simp add: get_link_def select_by_code_def columns_all)
qed

lemma create_link_created:
  assumes "create_link isURL rnd now url cc d = (Json 201 b, d')"
  shows "\<exists>u code. url = Some u \<and> u \<noteq> [] \<and> isURL u \<and>
           (cc = Some code \<and> code \<noteq> [] \<and> code_pattern code \<or>
            (cc = None \<or> cc = Some []) \<and> code = generateShortCode rnd) \<and>
           code \<notin> set (map short_code d) \<and>
           d' = d @ [\<lparr>short_code = code, original_url = u, clicks = 0,
                      last_clicked_at = None, created_at = now\<rparr>]"
proof -
  obtain u where u: "url = Some u" "u \<noteq> []" "isURL u"
    using assms by (cases url) (auto simp: create_link_def split: if_splits)
  define code where "code = (case cc of None \<Rightarrow> generateShortCode rnd
        | Some c \<Rightarrow> if c = [] then generateShortCode rnd else c)"
  have valid: "cc = Some code \<and> code \<noteq> [] \<and> code_pattern code \<or>
            (cc = None \<or> cc = Some []) \<and> code = generateShortCode rnd"
    using assms u unfolding code_def
    by (cases cc) (auto simp: create_link_def split: if_splits)
  have fresh: "code \<notin> set (map short_code d)"
  proof
    assume "code \<in> set (map short_code d)"
    then have "create_link isURL rnd now (Some u) cc d =
        (Json 409 (ErrorBody ''409 Custom code already exists''), d)"
      using u valid by (intro create_link_conflict) simp_all
    then show False using assms u by simp
  qed
  have short: "length code \<le> 10"
  proof (rule ccontr)
    assume "\<not> length code \<le> 10"
    then have "insert_link now code u d = Inl StringDataRightTruncation"
      by (simp add: insert_link_def)
    moreover have "select_by_code code d = Inr []" using fresh by (rule select_by_code_absent)
    ultimately have "create_link isURL rnd now (Some u) cc d = (internal_error, d)"
      using u valid by (auto simp: create_link_def)
    then show False using assms u by (simp add: internal_error_def)
  qed
  have "create_link isURL rnd now (Some u) cc d =
     (Json 201 (Row [(''short_code'', SqlText code), (''original_url'', SqlText u),
                     (''clicks'', SqlInt 0), (''created_at'', SqlTime now)]),
      d @ [\<lparr>short_code = code, original_url = u, clicks = 0, last_clicked_at = None,
              created_at = now\<rparr>])"
    using u(2,3) valid short fresh by (rule create_link_stores)
  then have "d' = d @ [\<lparr>short_code = code, original_url = u, clicks = 0, last_clicked_at = None,
              created_at = now\<rparr>]"
    using assms u by simp
  then show ?thesis using u valid fresh by blast
qed

lemma generate_example:
  "generateShortCode (\<lambda>i. real (i mod 5) / 5) = ''MYlxAM''"
  by (simp add: generateShortCode_def gen_loop.simps charAt_def chars_def)

lemma generate_zero: "generateShortCode (\<lambda>i. 0) = ''AAAAAA''"
  by (simp add: generateShortCode_def gen_loop.simps charAt_def chars_def)

text \<open>
  C2, as amended. For a URL that \<open>isURL\<close> accepts and a code not yet in the table, the
  code being a custom code that passes the pattern or, with no custom code (absent or
  empty), the generated one, \<open>create_link\<close> answers 201 with the new link's
  \<open>short_code\<close>, \<open>original_url\<close>, \<open>clicks = 0\<close> and \<open>created_at\<close>. The answer has no field
  \<open>last_clicked_at\<close>; the stored link has it null, as reading the link then shows. The
  code of the answer passes the pattern.
\<close>

theorem create_link_returns:
  assumes "u \<noteq> []" and "isURL u"
    and "cc = Some code \<and> code_pattern code \<or>
         (cc = None \<or> cc = Some []) \<and> code = generateShortCode rnd \<and>
           (\<forall>i. 0 \<le> rnd i \<and> rnd i < 1)"
    and "code \<notin> set (map short_code d)"
  shows "create_link isURL rnd now (Some u) cc d =
           (Json 201 (Row [(''short_code'', SqlText code), (''original_url'', SqlText u),
                           (''clicks'', SqlInt 0), (''created_at'', SqlTime now)]),
            d @ [\<lparr>short_code = code, original_url = u, clicks = 0, last_clicked_at = None,
                    created_at = now\<rparr>]) \<and>
         body_field (fst (create_link isURL rnd now (Some u) cc d)) ''last_clicked_at'' = None \<and>
         fst (get_link code (snd (create_link isURL rnd now (Some u) cc d))) =
           Json 200 (Row [(''short_code'', SqlText code), (''original_url'', SqlText u),
              (''clicks'', SqlInt 0), (''last_clicked_at'', SqlNull),
              (''created_at'', SqlTime now)]) \<and>
         code_pattern code"
proof -
  have cp: "code_pattern code"
    using assms(3) generated_code_pattern[of rnd] by auto
  then have len: "code \<noteq> []" "length code \<le> 10" using code_pattern_length by auto
  have choice: "cc = Some code \<and> code \<noteq> [] \<and> code_pattern code \<or>
         (cc = None \<or> cc = Some []) \<and> code = generateShortCode rnd"
    using assms(3) len(1) by blast
  have c: "create_link isURL rnd now (Some u) cc d =
           (Json 201 (Row [(''short_code'', SqlText code), (''original_url'', SqlText u),
                           (''clicks'', SqlInt 0), (''created_at'', SqlTime now)]),
            d @ [\<lparr>short_code = code, original_url = u, clicks = 0, last_clicked_at = None,
                    created_at = now\<rparr>])"
    using assms(1,2) choice len(2) assms(4) by (rule create_link_stores)
  show ?thesis unfolding c using cp get_link_created[OF assms(4)] by simp
qed

text \<open>No custom code, on the table of sample links: the generated code is \<open>MYlxAM\<close>.\<close>

theorem create_link_returns_witness:
  "create_link (\<lambda>u. u = ''https://example.com'') (\<lambda>i. real (i mod 5) / 5) 7
       (Some ''https://example.com'') None (sample_links 0) =
     (Json 201 (Row [(''short_code'', SqlText ''MYlxAM''),
         (''original_url'', SqlText ''https://example.com''), (''clicks'', SqlInt 0),
         (''created_at'', SqlTime 7)]),
      sample_links 0 @ [\<lparr>short_code = ''MYlxAM'', original_url = ''https://example.com'',
         clicks = 0, last_clicked_at = None, created_at = 7\<rparr>]) \<and>
   fst (get_link ''MYlxAM'' (snd (create_link (\<lambda>u. u = ''https://example.com'')
       (\<lambda>i. real (i mod 5) / 5) 7 (Some ''https://example.com'') None (sample_links 0)))) =
     Json 200 (Row [(''short_code'', SqlText ''MYlxAM''),
         (''original_url'', SqlText ''https://example.com''), (''clicks'', SqlInt 0),
         (''last_clicked_at'', SqlNull), (''created_at'', SqlTime 7)]) \<and>
   code_pattern ''MYlxAM''"
proof -
  let ?rnd = "\<lambda>i::nat. real (i mod 5) / 5"
  have h1: "''https://example.com'' \<noteq> []" by simp
  have h2: "(\<lambda>u. u = ''https://example.com'') ''https://example.com''" by simp
  have h3: "(None::string option) = Some ''MYlxAM'' \<and> code_pattern ''MYlxAM'' \<or>
      ((None::string option) = None \<or> (None::string option) = Some []) \<and>
      ''MYlxAM'' = generateShortCode ?rnd \<and> (\<forall>i. 0 \<le> ?rnd i \<and> ?rnd i < 1)"
    by (simp add: generate_example)
  have h4: "''MYlxAM'' \<notin> set (map short_code (sample_links 0))"
    by (simp add: sample_links_def)
  from create_link_returns[where isURL = "\<lambda>u. u = ''https://example.com''", OF h1 h2 h3 h4, of 7]
  show ?thesis by blast
qed

text \<open>
  C2 as stated fails on the last field: the answer to a successful create is the row
  of \<open>RETURNING short_code, original_url, clicks, created_at\<close>, and a key
  \<open>last_clicked_at\<close> is not in it (it would be \<open>Some SqlNull\<close> if it were there and null).
\<close>

theorem create_link_returns_counterexample:
  "fst (create_link (\<lambda>u. u = ''https://example.com'') (\<lambda>i. 0) 7
          (Some ''https://example.com'') (Some ''mycode1'') []) =
     Json 201 (Row [(''short_code'', SqlText ''mycode1''),
         (''original_url'', SqlText ''https://example.com''), (''clicks'', SqlInt 0),
         (''created_at'', SqlTime 7)]) \<and>
   body_field (fst (create_link (\<lambda>u. u = ''https://example.com'') (\<lambda>i. 0) 7
          (Some ''https://example.com'') (Some ''mycode1'') [])) ''last_clicked_at'' = None"
  by (simp add: create_link_def code_pattern_def alnum_def select_by_code_def
        insert_link_def Let_def columns_def column_def)

text \<open>
  C3, as amended. After a create with a non-empty custom code has answered 201, a create
  with the same code and any URL that \<open>isURL\<close> accepts answers 409 and leaves the table,
  and so the link created before, as it was.
\<close>

theorem create_twice_conflict:
  assumes "code \<noteq> []" and "u2 \<noteq> []" and "isURL u2"
    and "create_link isURL rnd1 t1 url1 (Some code) d = (Json 201 b, d1)"
  shows "create_link isURL rnd2 t2 (Some u2) (Some code) d1 =
           (Json 409 (ErrorBody ''409 Custom code already exists''), d1)"
proof -
  obtain u c where c: "Some code = Some c \<and> c \<noteq> [] \<and> code_pattern c \<or>
            (Some code = None \<or> Some code = Some []) \<and> c = generateShortCode rnd1"
    and d1: "d1 = d @ [\<lparr>short_code = c, original_url = u, clicks = 0,
                      last_clicked_at = None, created_at = t1\<rparr>]"
    using create_link_created[OF assms(4)] by blast
  have "c = code" "code_pattern code" using c assms(1) by auto
  then have "code \<in> set (map short_code d1)" using d1 by simp
  with assms(2,3) \<open>code_pattern code\<close> assms(1) show ?thesis
    by (intro create_link_conflict) simp_all
qed

theorem create_twice_conflict_witness:
  "create_link (\<lambda>u. u \<in> set [''https://example.com'', ''https://example.org/a'']) (\<lambda>i. 0) 9
       (Some ''https://example.org/a'') (Some ''mycode1'')
       [\<lparr>short_code = ''mycode1'', original_url = ''https://example.com'', clicks = 0,
          last_clicked_at = None, created_at = 7\<rparr>] =
     (Json 409 (ErrorBody ''409 Custom code already exists''),
       [\<lparr>short_code = ''mycode1'', original_url = ''https://example.com'', clicks = 0,
          last_clicked_at = None, created_at = 7\<rparr>])"
proof -
  let ?isURL = "\<lambda>u. u \<in> set [''https://example.com'', ''https://example.org/a'']"
  have h1: "''mycode1'' \<noteq> []" by simp
  have h2: "''https://example.org/a'' \<noteq> []" by simp
  have h3: "?isURL ''https://example.org/a''" by simp
  have h4: "create_link ?isURL (\<lambda>i. 0) 7 (Some ''https://example.com'') (Some ''mycode1'') [] =
      (Json 201 (Row [(''short_code'', SqlText ''mycode1''),
         (''original_url'', SqlText ''https://example.com''), (''clicks'', SqlInt 0),
         (''created_at'', SqlTime 7)]),
       [\<lparr>short_code = ''mycode1'', original_url = ''https://example.com'', clicks = 0,
          last_clicked_at = None, created_at = 7\<rparr>])"
    by (simp add: create_link_def code_pattern_def alnum_def select_by_code_def
          insert_link_def Let_def columns_def column_def)
  show ?thesis
    by (rule create_twice_conflict[where isURL = ?isURL, OF h1 h2 h3 h4])
qed

text \<open>
  C3 as stated fails for the empty string as code: the handler takes it for an absent
  custom code, both creates generate a code of their own and both answer 201.
\<close>

theorem create_twice_conflict_counterexample:
  "create_link (\<lambda>u. u \<in> set [''https://example.com'', ''https://example.org/a''])
       (\<lambda>i. 0) 7 (Some ''https://example.com'') (Some []) [] =
     (Json 201 (Row [(''short_code'', SqlText ''AAAAAA''),
         (''original_url'', SqlText ''https://example.com''), (''clicks'', SqlInt 0),
         (''created_at'', SqlTime 7)]),
      [\<lparr>short_code = ''AAAAAA'', original_url = ''https://example.com'', clicks = 0,
         last_clicked_at = None, created_at = 7\<rparr>]) \<and>
   create_link (\<lambda>u. u \<in> set [''https://example.com'', ''https://example.org/a''])
       (\<lambda>i. real (i mod 5) / 5) 9 (Some ''https://example.org/a'') (Some [])
       [\<lparr>short_code = ''AAAAAA'', original_url = ''https://example.com'', clicks = 0,
          last_clicked_at = None, created_at = 7\<rparr>] =
     (Json 201 (Row [(''short_code'', SqlText ''MYlxAM''),
         (''original_url'', SqlText ''https://example.org/a''), (''clicks'', SqlInt 0),
         (''created_at'', SqlTime 9)]),
      [\<lparr>short_code = ''AAAAAA'', original_url = ''https://example.com'', clicks = 0,
          last_clicked_at = None, created_at = 7\<rparr>,
       \<lparr>short_code = ''MYlxAM'', original_url = ''https://example.org/a'', clicks = 0,
          last_clicked_at = None, created_at = 9\<rparr>])"
  by (simp add: create_link_def generate_zero generate_example select_by_code_def
        insert_link_def Let_def columns_def column_def)

lemma create_link_rejects:
  assumes "url = None \<or> url = Some [] \<or> (\<exists>u. url = Some u \<and> \<not> isURL u) \<or>
           (\<exists>c. cc = Some c \<and> c \<noteq> [] \<and> \<not> code_pattern c)"
  shows "status_of (fst (create_link isURL rnd now url cc d)) = 400 \<and>
         snd (create_link isURL rnd now url cc d) = d"
proof (cases "url = None \<or> url = Some [] \<or> (\<exists>u. url = Some u \<and> \<not> isURL u)")
  case True
  then show ?thesis by (simp add: create_link_bad_url)
next
  case False
  then obtain u where u: "url = Some u" "u \<noteq> []" "isURL u" by (cases url) auto
  obtain c where c: "cc = Some c" "c \<noteq> []" "\<not> code_pattern c" using assms False by blast
  show ?thesis
    unfolding u(1) c(1)
    using create_link_bad_code[where isURL = isURL, OF u(2,3) c(2,3)] by simp
qed

text \<open>
  C5, as amended. \<open>create_link\<close> answers 400 and stores nothing whenever the URL is
  absent, empty or refused by \<open>isURL\<close>, or whenever a non-empty custom code fails the
  pattern of 6 to 8 letters and digits. In particular \<open>not-a-url\<close> is answered 400 when
  \<open>isURL\<close> refuses it, and the custom codes \<open>ab\<close> and \<open>abc123!!\<close> with the URL
  \<open>http://x.com\<close> are answered 400 whatever \<open>isURL\<close> says.
\<close>

theorem create_link_invalid_input:
  "((url = None \<or> url = Some [] \<or> (\<exists>u. url = Some u \<and> \<not> isURL u) \<or>
      (\<exists>c. cc = Some c \<and> c \<noteq> [] \<and> \<not> code_pattern c)) \<longrightarrow>
     status_of (fst (create_link isURL rnd now url cc d)) = 400 \<and>
     snd (create_link isURL rnd now url cc d) = d) \<and>
   (\<not> isURL ''not-a-url'' \<longrightarrow>
     status_of (fst (create_link isURL rnd now (Some ''not-a-url'') cc d)) = 400) \<and>
   status_of (fst (create_link isURL rnd now (Some ''http://x.com'') (Some ''ab'') d)) = 400 \<and>
   status_of (fst (create_link isURL rnd now (Some ''http://x.com'') (Some ''abc123!!'') d)) = 400"
proof -
  have ab: "\<not> code_pattern ''ab''" by (simp add: code_pattern_def)
  have bang: "\<not> code_pattern ''abc123!!''" by (simp add: code_pattern_def alnum_def)
  have "status_of (fst (create_link isURL rnd now (Some ''not-a-url'') cc d)) = 400"
    if "\<not> isURL ''not-a-url''"
    using that by (intro create_link_rejects[THEN conjunct1]) simp
  moreover have "status_of (fst (create_link isURL rnd now (Some ''http://x.com'') (Some ''ab'') d)) = 400"
    using ab by (intro create_link_rejects[THEN conjunct1]) simp
  moreover have "status_of (fst (create_link isURL rnd now (Some ''http://x.com'') (Some ''abc123!!'') d)) = 400"
    using bang by (intro create_link_rejects[THEN conjunct1]) simp
  ultimately show ?thesis using create_link_rejects[of url isURL cc rnd now d] by blast
qed

text \<open>The URL \<open>not-a-url\<close>, and the custom code \<open>mycode-1\<close> with its hyphen.\<close>

theorem create_link_invalid_input_witness:
  "status_of (fst (create_link (\<lambda>u. u = ''http://x.com'') (\<lambda>i. 0) 7
       (Some ''not-a-url'') None (sample_links 0))) = 400 \<and>
   snd (create_link (\<lambda>u. u = ''http://x.com'') (\<lambda>i. 0) 7
       (Some ''http://x.com'') (Some ''mycode-1'') (sample_links 0)) = sample_links 0 \<and>
   status_of (fst (create_link (\<lambda>u. u = ''http://x.com'') (\<lambda>i. 0) 7
       (Some ''http://x.com'') (Some ''mycode-1'') (sample_links 0))) = 400"
proof -
  let ?isURL = "\<lambda>u. u = ''http://x.com''"
  have a: "\<not> ?isURL ''not-a-url''" by simp
  have b: "Some ''http://x.com'' = None \<or> Some ''http://x.com'' = Some [] \<or>
      (\<exists>u. Some ''http://x.com'' = Some u \<and> \<not> ?isURL u) \<or>
      (\<exists>c. Some ''mycode-1'' = Some c \<and> c \<noteq> [] \<and> \<not> code_pattern c)"
    by (simp add: code_pattern_def alnum_def)
  show ?thesis
    using a b
      create_link_invalid_input[of "Some ''http://x.com''" ?isURL "Some ''mycode-1''"
        "\<lambda>i. 0" 7 "sample_links 0"]
      create_link_invalid_input[of "Some ''not-a-url''" ?isURL None
        "\<lambda>i. 0" 7 "sample_links 0"]
    by blast
qed

text \<open>
  C5 as stated fails for the empty custom code: it does not pass the pattern, yet the
  handler takes it for an absent one, generates a code and answers 201.
\<close>

theorem create_link_invalid_input_counterexample:
  "\<not> code_pattern [] \<and>
   create_link (\<lambda>u. u = ''http://x.com'') (\<lambda>i. 0) 7 (Some ''http://x.com'') (Some []) [] =
     (Json 201 (Row [(''short_code'', SqlText ''AAAAAA''),
         (''original_url'', SqlText ''http://x.com''), (''clicks'', SqlInt 0),
         (''created_at'', SqlTime 7)]),
      [\<lparr>short_code = ''AAAAAA'', original_url = ''http://x.com'', clicks = 0,
         last_clicked_at = None, created_at = 7\<rparr>])"
  by (simp add: create_link_def code_pattern_def generate_zero select_by_code_def
        insert_link_def Let_def columns_def column_def)

text \<open>
  C10, as amended. For a URL that \<open>isURL\<close> accepts and a random source with values in
  \<open>[0, 1)\<close>, a create with the empty string as custom code is the create with no custom
  code: the pattern is not applied to it, the answer is never 400, the code is the
  generated one, which passes the pattern, and the link is stored with answer 201 unless
  the generated code is already in the table, where the answer is 409 as for any taken
  code.
\<close>

theorem create_link_empty_custom_code:
  assumes "u \<noteq> []" and "isURL u" and "\<forall>i. 0 \<le> rnd i \<and> rnd i < 1"
  shows "create_link isURL rnd now (Some u) (Some []) d =
           create_link isURL rnd now (Some u) None d \<and>
         code_pattern (generateShortCode rnd) \<and>
         status_of (fst (create_link isURL rnd now (Some u) (Some []) d)) \<noteq> 400 \<and>
         create_link isURL rnd now (Some u) (Some []) d =
           (if generateShortCode rnd \<in> set (map short_code d)
            then (Json 409 (ErrorBody ''409 Custom code already exists''), d)
            else (Json 201 (Row [(''short_code'', SqlText (generateShortCode rnd)),
                     (''original_url'', SqlText u), (''clicks'', SqlInt 0),
                     (''created_at'', SqlTime now)]),
                  d @ [\<lparr>short_code = generateShortCode rnd, original_url = u, clicks = 0,
                          last_clicked_at = None, created_at = now\<rparr>]))"
proof -
  let ?g = "generateShortCode rnd"
  have same: "create_link isURL rnd now (Some u) (Some []) d =
           create_link isURL rnd now (Some u) None d"
    by (simp add: create_link_def)
  have cp: "code_pattern ?g" using assms(3) generated_code_pattern[of rnd] by simp
  then have len: "length ?g \<le> 10" using code_pattern_length by blast
  have choice: "Some [] = Some ?g \<and> ?g \<noteq> [] \<and> code_pattern ?g \<or>
         ((Some []::string option) = None \<or> (Some []::string option) = Some []) \<and> ?g = generateShortCode rnd"
    by simp
  have res: "create_link isURL rnd now (Some u) (Some []) d =
           (if ?g \<in> set (map short_code d)
            then (Json 409 (ErrorBody ''409 Custom code already exists''), d)
            else (Json 201 (Row [(''short_code'', SqlText ?g),
                     (''original_url'', SqlText u), (''clicks'', SqlInt 0),
                     (''created_at'', SqlTime now)]),
                  d @ [\<lparr>short_code = ?g, original_url = u, clicks = 0,
                          last_clicked_at = None, created_at = now\<rparr>]))"
  proof (cases "?g \<in> set (map short_code d)")
    case True
    show ?thesis using create_link_conflict[where isURL = isURL, OF assms(1,2) choice True] True by simp
  next
    case False
    show ?thesis using create_link_stores[where isURL = isURL, OF assms(1,2) choice len False] False by simp
  qed
  have "status_of (fst (create_link isURL rnd now (Some u) (Some []) d)) \<noteq> 400"
    unfolding res by simp
  then show ?thesis using same cp res by blast
qed

theorem create_link_empty_custom_code_witness:
  "create_link (\<lambda>u. u = ''http://x.com'') (\<lambda>i. real (i mod 5) / 5) 7
       (Some ''http://x.com'') (Some []) (sample_links 0) =
     (Json 201 (Row [(''short_code'', SqlText ''MYlxAM''),
         (''original_url'', SqlText ''http://x.com''), (''clicks'', SqlInt 0),
         (''created_at'', SqlTime 7)]),
      sample_links 0 @ [\<lparr>short_code = ''MYlxAM'', original_url = ''http://x.com'',
         clicks = 0, last_clicked_at = None, created_at = 7\<rparr>]) \<and>
   create_link (\<lambda>u. u = ''http://x.com'') (\<lambda>i. real (i mod 5) / 5) 7
       (Some ''http://x.com'') (Some []) (sample_links 0) =
   create_link (\<lambda>u. u = ''http://x.com'') (\<lambda>i. real (i mod 5) / 5) 7
       (Some ''http://x.com'') None (sample_links 0)"
proof -
  let ?rnd = "\<lambda>i::nat. real (i mod 5) / 5"
  have h1: "''http://x.com'' \<noteq> []" by simp
  have h2: "(\<lambda>u. u = ''http://x.com'') ''http://x.com''" by simp
  have h3: "\<forall>i. 0 \<le> ?rnd i \<and> ?rnd i < 1" by simp
  have fresh: "''MYlxAM'' \<notin> set (map short_code (sample_links 0))"
    by (simp add: sample_links_def)
  note r = create_link_empty_custom_code[where isURL = "\<lambda>u. u = ''http://x.com''",
        OF h1 h2 h3, of 7 "sample_links 0", unfolded generate_example]
  have A: "create_link (\<lambda>u. u = ''http://x.com'') ?rnd 7
       (Some ''http://x.com'') (Some []) (sample_links 0) =
     create_link (\<lambda>u. u = ''http://x.com'') ?rnd 7
       (Some ''http://x.com'') None (sample_links 0)"
    using r by (rule conjunct1)
  have B: "create_link (\<lambda>u. u = ''http://x.com'') ?rnd 7
       (Some ''http://x.com'') (Some []) (sample_links 0) =
     (Json 201 (Row [(''short_code'', SqlText ''MYlxAM''),
         (''original_url'', SqlText ''http://x.com''), (''clicks'', SqlInt 0),
         (''created_at'', SqlTime 7)]),
      sample_links 0 @ [\<lparr>short_code = ''MYlxAM'', original_url = ''http://x.com'',
         clicks = 0, last_clicked_at = None, created_at = 7\<rparr>])"
    using r[THEN conjunct2, THEN conjunct2, THEN conjunct2] fresh by (simp only: if_False)
  show ?thesis using B A by (rule conjI)
qed

text \<open>
  C10 as stated fails where the generated code is taken: with \<open>AAAAAA\<close> in the table
  and a random source that generates \<open>AAAAAA\<close> again, the create with the empty custom
  code does not succeed but answers 409.
\<close>

theorem create_link_empty_custom_code_counterexample:
  "create_link (\<lambda>u. u = ''http://x.com'') (\<lambda>i. 0) 9 (Some ''http://x.com'') (Some [])
       [\<lparr>short_code = ''AAAAAA'', original_url = ''https://example.com'', clicks = 0,
          last_clicked_at = None, created_at = 7\<rparr>] =
     (Json 409 (ErrorBody ''409 Custom code already exists''),
      [\<lparr>short_code = ''AAAAAA'', original_url = ''https://example.com'', clicks = 0,
          last_clicked_at = None, created_at = 7\<rparr>])"
  by (simp add: create_link_def generate_zero select_by_code_def)

section \<open>Deleting links\<close>

lemma delete_link_present:
  assumes "c \<in> set (map short_code d)"
  shows "delete_link c d =
     (Json 200 (MessageBody ''Link deleted successfully''), filter (\<lambda>r. short_code r \<noteq> c) d)"
proof -
  have "filter (\<lambda>r. short_code r = c) d \<noteq> []"
    using assms unfolding filter_empty_conv by auto
  then show ?thesis
    by (cases "filter (\<lambda>r. short_code r = c) d") (simp_all add: delete_link_def delete_by_code_def)
qed

lemma delete_link_absent:
  assumes "c \<notin> set (map short_code d)"
  shows "delete_link c d = (Json 404 (ErrorBody ''Link not found''), d)"
proof -
  have "filter (\<lambda>r. short_code r = c) d = []"
    using assms unfolding filter_empty_conv by auto
  moreover have "filter (\<lambda>r. short_code r \<noteq> c) d = d"
    using assms unfolding filter_id_conv by auto
  ultimately show ?thesis by (simp add: delete_link_def delete_by_code_def)
qed

text \<open>
  C8, as amended. For a code that is in the table and passes the pattern for custom
  codes, the first delete answers 200 and removes the link, a second delete answers 404,
  and a create with that code as custom code and a URL that \<open>isURL\<close> accepts then
  answers 201 and stores the new link.
\<close>

theorem delete_then_recreate:
  assumes "c \<in> set (map short_code d)" and "code_pattern c" and "u \<noteq> []" and "isURL u"
  shows "delete_link c d =
           (Json 200 (MessageBody ''Link deleted successfully''),
            filter (\<lambda>r. short_code r \<noteq> c) d) \<and>
         delete_link c (filter (\<lambda>r. short_code r \<noteq> c) d) =
           (Json 404 (ErrorBody ''Link not found''), filter (\<lambda>r. short_code r \<noteq> c) d) \<and>
         create_link isURL rnd now (Some u) (Some c) (filter (\<lambda>r. short_code r \<noteq> c) d) =
           (Json 201 (Row [(''short_code'', SqlText c), (''original_url'', SqlText u),
                           (''clicks'', SqlInt 0), (''created_at'', SqlTime now)]),
            filter (\<lambda>r. short_code r \<noteq> c) d @
              [\<lparr>short_code = c, original_url = u, clicks = 0, last_clicked_at = None,
                 created_at = now\<rparr>])"
proof -
  let ?d1 = "filter (\<lambda>r. short_code r \<noteq> c) d"
  have gone: "c \<notin> set (map short_code ?d1)" by auto
  have len: "c \<noteq> []" "length c \<le> 10" using assms(2) code_pattern_length by auto
  have choice: "Some c = Some c \<and> c \<noteq> [] \<and> code_pattern c \<or>
         ((Some c::string option) = None \<or> Some c = Some []) \<and> c = generateShortCode rnd"
    using assms(2) len(1) by simp
  show ?thesis
    using delete_link_present[OF assms(1)] delete_link_absent[OF gone]
      create_link_stores[where isURL = isURL, OF assms(3,4) choice len(2) gone]
    by simp
qed

text \<open>The sample link \<open>google\<close>.\<close>

theorem delete_then_recreate_witness:
  "delete_link ''google'' (sample_links 0) =
     (Json 200 (MessageBody ''Link deleted successfully''),
      filter (\<lambda>r. short_code r \<noteq> ''google'') (sample_links 0)) \<and>
   delete_link ''google'' (filter (\<lambda>r. short_code r \<noteq> ''google'') (sample_links 0)) =
     (Json 404 (ErrorBody ''Link not found''),
      filter (\<lambda>r. short_code r \<noteq> ''google'') (sample_links 0)) \<and>
   create_link (\<lambda>u. u = ''https://google.com'') (\<lambda>i. 0) 7 (Some ''https://google.com'')
       (Some ''google'') (filter (\<lambda>r. short_code r \<noteq> ''google'') (sample_links 0)) =
     (Json 201 (Row [(''short_code'', SqlText ''google''),
         (''original_url'', SqlText ''https://google.com''), (''clicks'', SqlInt 0),
         (''created_at'', SqlTime 7)]),
      filter (\<lambda>r. short_code r \<noteq> ''google'') (sample_links 0) @
        [\<lparr>short_code = ''google'', original_url = ''https://google.com'', clicks = 0,
           last_clicked_at = None, created_at = 7\<rparr>])"
proof -
  have h1: "''google'' \<in> set (map short_code (sample_links 0))" by (simp add: sample_links_def)
  have h2: "code_pattern ''google''" by (simp add: code_pattern_def alnum_def)
  have h3: "''https://google.com'' \<noteq> []" by simp
  have h4: "(\<lambda>u. u = ''https://google.com'') ''https://google.com''" by simp
  show ?thesis
    by (rule delete_then_recreate[where isURL = "\<lambda>u. u = ''https://google.com''", OF h1 h2 h3 h4])
qed

text \<open>
  C8 as stated fails for the sample link \<open>docs\<close> that schema.sql inserts: its code has
  four characters, so after the delete a create with that code is answered 400.
\<close>

theorem delete_then_recreate_counterexample:
  "delete_link ''docs'' (sample_links 0) =
     (Json 200 (MessageBody ''Link deleted successfully''),
      [\<lparr>short_code = ''google'', original_url = ''https://google.com'', clicks = 0,
          last_clicked_at = None, created_at = 0\<rparr>,
       \<lparr>short_code = ''test'', original_url = ''https://example.com/test'', clicks = 0,
          last_clicked_at = None, created_at = 0\<rparr>]) \<and>
   create_link (\<lambda>u. u = ''https://docs.example.com'') (\<lambda>i. 0) 7
       (Some ''https://docs.example.com'') (Some ''docs'')
       (snd (delete_link ''docs'' (sample_links 0))) =
     (Json 400 (ErrorBody
        ''Custom code must be 6-8 characters and contain only letters and numbers''),
      [\<lparr>short_code = ''google'', original_url = ''https://google.com'', clicks = 0,
          last_clicked_at = None, created_at = 0\<rparr>,
       \<lparr>short_code = ''test'', original_url = ''https://example.com/test'', clicks = 0,
          last_clicked_at = None, created_at = 0\<rparr>])"
  by (simp add: delete_link_def delete_by_code_def sample_links_def create_link_def
        code_pattern_def)

section \<open>Listing links\<close>

text \<open>
  C9. \<open>list_links\<close> always answers 200, with no link the empty list, and leaves the
  table as it is; the rows of the answer are the links of the table, every one of them
  once, in descending order of \<open>created_at\<close>.
\<close>

theorem list_links_newest_first:
  "list_links d =
     (Json 200 (Rows (map (columns all_columns) (rev (sort_key created_at d)))), d) \<and>
   mset (rev (sort_key created_at d)) = mset d \<and>
   sorted_wrt (\<lambda>a b. created_at b \<le> created_at a) (rev (sort_key created_at d)) \<and>
   list_links [] = (Json 200 (Rows []), [])"
proof -
  have "sorted (map created_at (sort_key created_at d))" by (rule sorted_sort_key)
  then have "sorted_wrt (\<lambda>a b. created_at a \<le> created_at b) (sort_key created_at d)"
    by (simp add: sorted_map)
  then have "sorted_wrt (\<lambda>a b. created_at b \<le> created_at a) (rev (sort_key created_at d))"
    by (simp add: sorted_wrt_rev)
  then show ?thesis by (simp add: list_links_def select_all_desc_def)
qed

text \<open>Three links created at the times 3, 9 and 5 are listed as 9, 5, 3.\<close>

theorem list_links_newest_first_witness:
  "fst (list_links
     [\<lparr>short_code = ''first1'', original_url = ''https://a.example'', clicks = 2,
         last_clicked_at = Some 4, created_at = 3\<rparr>,
      \<lparr>short_code = ''third3'', original_url = ''https://c.example'', clicks = 0,
         last_clicked_at = None, created_at = 9\<rparr>,
      \<lparr>short_code = ''second2'', original_url = ''https://b.example'', clicks = 0,
         last_clicked_at = None, created_at = 5\<rparr>]) =
   Json 200 (Rows
     [[(''short_code'', SqlText ''third3''), (''original_url'', SqlText ''https://c.example''),
       (''clicks'', SqlInt 0), (''last_clicked_at'', SqlNull), (''created_at'', SqlTime 9)],
      [(''short_code'', SqlText ''second2''), (''original_url'', SqlText ''https://b.example''),
       (''clicks'', SqlInt 0), (''last_clicked_at'', SqlNull), (''created_at'', SqlTime 5)],
      [(''short_code'', SqlText ''first1''), (''original_url'', SqlText ''https://a.example''),
       (''clicks'', SqlInt 2), (''last_clicked_at'', SqlTime 4), (''created_at'', SqlTime 3)]])"
proof -
  let ?d = "[\<lparr>short_code = ''first1'', original_url = ''https://a.example'', clicks = 2,
         last_clicked_at = Some (4::nat), created_at = 3::nat\<rparr>,
      \<lparr>short_code = ''third3'', original_url = ''https://c.example'', clicks = 0,
         last_clicked_at = None, created_at = 9\<rparr>,
      \<lparr>short_code = ''second2'', original_url = ''https://b.example'', clicks = 0,
         last_clicked_at = None, created_at = 5\<rparr>]"
  have "list_links ?d =
     (Json 200 (Rows (map (columns all_columns) (rev (sort_key created_at ?d)))), ?d)"
    using list_links_newest_first[of ?d] by (rule conjunct1)
  then show ?thesis by (simp add: columns_def column_def all_columns_def)
qed

section \<open>The invariants of the store\<close>

lemma same_code_same_row:
  "unique_codes d \<Longrightarrow> r \<in> set d \<Longrightarrow> r' \<in> set d \<Longrightarrow> short_code r' = short_code r \<Longrightarrow> r' = r"
  by (auto simp: unique_codes_def distinct_map inj_on_def)

text \<open>The table after each handler.\<close>

lemma create_link_table:
  assumes "create_link isURL rnd now url cc d = (resp, d')"
  shows "d' = d \<or>
         (\<exists>code u. code \<notin> set (map short_code d) \<and>
            d' = d @ [\<lparr>short_code = code, original_url = u, clicks = 0,
                        last_clicked_at = None, created_at = now\<rparr>])"
  using assms
  by (auto simp: create_link_def insert_link_def Let_def select_by_code_def
        split: option.splits if_splits sum.splits list.splits)

lemma redirect_link_table:
  assumes "redirect_link now c d = (resp, d')"
  shows "d' = d \<and> (toLowerCase c \<in> set reserved_paths \<or> status_of resp \<noteq> 302) \<or>
         toLowerCase c \<notin> set reserved_paths \<and> status_of resp = 302 \<and>
         d' = map (\<lambda>x. if short_code x = c
                        then x\<lparr>clicks := clicks x + 1, last_clicked_at := Some now\<rparr>
                        else x) d"
  using assms
  by (auto simp: redirect_link_def update_clicks_def select_by_code_def internal_error_def
        split: if_splits sum.splits list.splits)

lemma get_link_table: "get_link c d = (resp, d') \<Longrightarrow> d' = d"
  by (auto simp: get_link_def select_by_code_def split: list.splits)

lemma list_links_table: "list_links d = (resp, d') \<Longrightarrow> d' = d"
  by (auto simp: list_links_def select_all_desc_def)

lemma delete_link_table:
  "delete_link c d = (resp, d') \<Longrightarrow> d' = filter (\<lambda>r. short_code r \<noteq> c) d"
  by (auto simp: delete_link_def delete_by_code_def split: list.splits)

text \<open>What the three shapes of a new table preserve.\<close>

lemma unchanged_keeps:
  assumes "unique_codes d"
  shows "\<forall>r\<in>set d. \<forall>r'\<in>set d. short_code r' = short_code r \<longrightarrow> clicks r' = clicks r"
  using same_code_same_row[OF assms] by blast

lemma appended_keeps:
  assumes "unique_codes d" and "clicks_nonneg d" and "code \<notin> set (map short_code d)"
    and "d' = d @ [\<lparr>short_code = code, original_url = u, clicks = 0,
                     last_clicked_at = None, created_at = now\<rparr>]"
  shows "unique_codes d' \<and> clicks_nonneg d' \<and>
         (\<forall>r\<in>set d. \<forall>r'\<in>set d'. short_code r' = short_code r \<longrightarrow> clicks r' = clicks r)"
proof -
  have u: "unique_codes d'" using assms(1,3,4) by (simp add: unique_codes_def)
  have n: "clicks_nonneg d'" using assms(2,4) by (simp add: clicks_nonneg_def)
  have "clicks r' = clicks r"
    if "r \<in> set d" "r' \<in> set d'" "short_code r' = short_code r" for r r'
  proof -
    have "r \<in> set d'" using that(1) assms(4) by simp
    then have "r' = r" using same_code_same_row[OF u _ that(2,3)] by simp
    then show ?thesis by simp
  qed
  then show ?thesis using u n by blast
qed

lemma filtered_keeps:
  assumes "unique_codes d" and "clicks_nonneg d" and "d' = filter P d"
  shows "unique_codes d' \<and> clicks_nonneg d' \<and>
         (\<forall>r\<in>set d. \<forall>r'\<in>set d'. short_code r' = short_code r \<longrightarrow> clicks r' = clicks r)"
proof -
  have u: "unique_codes d'" using assms(1,3) by (simp add: unique_codes_def distinct_map_filter)
  have n: "clicks_nonneg d'" using assms(2,3) by (auto simp: clicks_nonneg_def list_all_iff)
  have "clicks r' = clicks r"
    if "r \<in> set d" "r' \<in> set d'" "short_code r' = short_code r" for r r'
  proof -
    have "r' \<in> set d" using that(2) assms(3) by simp
    then have "r' = r" using same_code_same_row[OF assms(1) that(1) _ that(3)] by simp
    then show ?thesis by simp
  qed
  then show ?thesis using u n by blast
qed

lemma counted_keeps:
  assumes "unique_codes d" and "clicks_nonneg d"
    and "d' = map (\<lambda>x. if short_code x = c
                        then x\<lparr>clicks := clicks x + 1, last_clicked_at := Some now\<rparr>
                        else x) d"
  shows "unique_codes d' \<and> clicks_nonneg d' \<and>
         (\<forall>r\<in>set d. \<forall>r'\<in>set d'. short_code r' = short_code r \<longrightarrow>
            clicks r' = (if short_code r = c then clicks r + 1 else clicks r))"
proof -
  let ?f = "\<lambda>x. if short_code x = c
                 then x\<lparr>clicks := clicks x + 1, last_clicked_at := Some now\<rparr> else x"
  have u: "unique_codes d'" unfolding assms(3) using assms(1) by (subst unique_codes_map) simp_all
  have n: "clicks_nonneg d'"
    using assms(2) unfolding assms(3) by (auto simp: clicks_nonneg_def list_all_iff)
  have "clicks r' = (if short_code r = c then clicks r + 1 else clicks r)"
    if h: "r \<in> set d" "r' \<in> set d'" "short_code r' = short_code r" for r r'
  proof -
    have "r' \<in> ?f ` set d" using h(2) unfolding assms(3) by simp
    then obtain x where x: "x \<in> set d" "r' = ?f x" by (rule imageE)
    have "short_code (?f x) = short_code x" by simp
    then have "short_code x = short_code r" using x(2) h(3) by simp
    then have "x = r" using same_code_same_row[OF assms(1) h(1) x(1)] by simp
    then show ?thesis using x(2) by simp
  qed
  then show ?thesis using u n by blast
qed

lemma unchanged_keeps_all:
  assumes "unique_codes d" and "clicks_nonneg d" and "d' = d"
  shows "unique_codes d' \<and> clicks_nonneg d' \<and>
         (\<forall>r\<in>set d. \<forall>r'\<in>set d'. short_code r' = short_code r \<longrightarrow> clicks r' = clicks r)"
  unfolding assms(3) using assms(1,2) unchanged_keeps[OF assms(1)] by (intro conjI)

text \<open>
  C7. Let the codes of a table be unique and its click counters non-negative. After any
  one operation (create, redirect, read, list, delete) the codes are unique and the
  counters non-negative again, and for every link that is in the table before and after,
  the counter is what it was, except after a redirect of that link's code that is not
  a reserved path and was answered with status 302: then it is larger by exactly one.
\<close>

theorem operations_preserve_invariants:
  assumes "unique_codes d" and "clicks_nonneg d"
    and "perform isURL rnd now op d = (resp, d')"
  shows "unique_codes d' \<and> clicks_nonneg d' \<and>
         (\<forall>r\<in>set d. \<forall>r'\<in>set d'. short_code r' = short_code r \<longrightarrow>
            clicks r' =
              (if op = OpRedirect (short_code r) \<and>
                  toLowerCase (short_code r) \<notin> set reserved_paths \<and> status_of resp = 302
               then clicks r + 1 else clicks r))"
proof (cases op)
  case (OpCreate url cc)
  then have no: "\<And>r. (op = OpRedirect (short_code r) \<and>
      toLowerCase (short_code r) \<notin> set reserved_paths \<and> status_of resp = 302) = False"
    by simp
  have "create_link isURL rnd now url cc d = (resp, d')" using assms(3) OpCreate by simp
  then consider "d' = d"
    | code u where "code \<notin> set (map short_code d)"
        "d' = d @ [\<lparr>short_code = code, original_url = u, clicks = 0,
                    last_clicked_at = None, created_at = now\<rparr>]"
    using create_link_table by blast
  then show ?thesis
  proof cases
    case 1
    show ?thesis unfolding no if_False by (rule unchanged_keeps_all[OF assms(1,2) 1])
  next
    case 2
    show ?thesis unfolding no if_False by (rule appended_keeps[OF assms(1,2) 2])
  qed
next
  case (OpRedirect c)
  have "redirect_link now c d = (resp, d')" using assms(3) OpRedirect by simp
  then consider "d' = d" "toLowerCase c \<in> set reserved_paths \<or> status_of resp \<noteq> 302"
    | "toLowerCase c \<notin> set reserved_paths" "status_of resp = 302"
      "d' = map (\<lambda>x. if short_code x = c
                     then x\<lparr>clicks := clicks x + 1, last_clicked_at := Some now\<rparr>
                     else x) d"
    using redirect_link_table by blast
  then show ?thesis
  proof cases
    case 1
    have no: "\<And>r. (op = OpRedirect (short_code r) \<and>
        toLowerCase (short_code r) \<notin> set reserved_paths \<and> status_of resp = 302) = False"
      using OpRedirect 1(2) by auto
    show ?thesis unfolding no if_False by (rule unchanged_keeps_all[OF assms(1,2) 1(1)])
  next
    case 2
    have yes: "\<And>r. (op = OpRedirect (short_code r) \<and>
        toLowerCase (short_code r) \<notin> set reserved_paths \<and> status_of resp = 302) =
        (short_code r = c)"
      using OpRedirect 2(1,2) by auto
    show ?thesis unfolding yes by (rule counted_keeps[OF assms(1,2) 2(3)])
  qed
next
  case (OpGetStats c)
  then have no: "\<And>r. (op = OpRedirect (short_code r) \<and>
      toLowerCase (short_code r) \<notin> set reserved_paths \<and> status_of resp = 302) = False"
    by simp
  have "get_link c d = (resp, d')" using assms(3) OpGetStats by simp
  then have "d' = d" by (rule get_link_table)
  then show ?thesis unfolding no if_False by (rule unchanged_keeps_all[OF assms(1,2)])
next
  case OpListAll
  then have no: "\<And>r. (op = OpRedirect (short_code r) \<and>
      toLowerCase (short_code r) \<notin> set reserved_paths \<and> status_of resp = 302) = False"
    by simp
  have "list_links d = (resp, d')" using assms(3) OpListAll by simp
  then have "d' = d" by (rule list_links_table)
  then show ?thesis unfolding no if_False by (rule unchanged_keeps_all[OF assms(1,2)])
next
  case (OpDelete c)
  then have no: "\<And>r. (op = OpRedirect (short_code r) \<and>
      toLowerCase (short_code r) \<notin> set reserved_paths \<and> status_of resp = 302) = False"
    by simp
  have "delete_link c d = (resp, d')" using assms(3) OpDelete by simp
  then have "d' = filter (\<lambda>r. short_code r \<noteq> c) d" by (rule delete_link_table)
  then show ?thesis unfolding no if_False by (rule filtered_keeps[OF assms(1,2)])
qed

text \<open>A redirect of the sample link \<open>google\<close> at time 5.\<close>

theorem operations_preserve_invariants_witness:
  "perform (\<lambda>u. u = ''https://example.com'') (\<lambda>i. 0) 5 (OpRedirect ''google'') (sample_links 0) =
     (Redirect 302 ''https://google.com'',
      [\<lparr>short_code = ''docs'', original_url = ''https://docs.example.com'', clicks = 0,
          last_clicked_at = None, created_at = 0\<rparr>,
       \<lparr>short_code = ''google'', original_url = ''https://google.com'', clicks = 1,
          last_clicked_at = Some 5, created_at = 0\<rparr>,
       \<lparr>short_code = ''test'', original_url = ''https://example.com/test'', clicks = 0,
          last_clicked_at = None, created_at = 0\<rparr>]) \<and>
   unique_codes
     [\<lparr>short_code = ''docs'', original_url = ''https://docs.example.com'', clicks = 0,
          last_clicked_at = None, created_at = 0\<rparr>,
       \<lparr>short_code = ''google'', original_url = ''https://google.com'', clicks = 1,
          last_clicked_at = Some 5, created_at = 0\<rparr>,
       \<lparr>short_code = ''test'', original_url = ''https://example.com/test'', clicks = 0,
          last_clicked_at = None, created_at = 0\<rparr>] \<and>
   clicks_nonneg
     [\<lparr>short_code = ''docs'', original_url = ''https://docs.example.com'', clicks = 0,
          last_clicked_at = None, created_at = 0\<rparr>,
       \<lparr>short_code = ''google'', original_url = ''https://google.com'', clicks = 1,
          last_clicked_at = Some 5, created_at = 0\<rparr>,
       \<lparr>short_code = ''test'', original_url = ''https://example.com/test'', clicks = 0,
          last_clicked_at = None, created_at = 0\<rparr>]"
proof -
  let ?d' = "[\<lparr>short_code = ''docs'', original_url = ''https://docs.example.com'', clicks = 0,
          last_clicked_at = None, created_at = 0::nat\<rparr>,
       \<lparr>short_code = ''google'', original_url = ''https://google.com'', clicks = 1,
          last_clicked_at = Some (5::nat), created_at = 0\<rparr>,
       \<lparr>short_code = ''test'', original_url = ''https://example.com/test'', clicks = 0,
          last_clicked_at = None, created_at = 0\<rparr>]"
  have h1: "unique_codes (sample_links 0)" by (simp add: unique_codes_def sample_links_def)
  have h2: "clicks_nonneg (sample_links 0)" by (simp add: clicks_nonneg_def sample_links_def)
  have h3: "perform (\<lambda>u. u = ''https://example.com'') (\<lambda>i. 0) 5 (OpRedirect ''google'')
      (sample_links 0) = (Redirect 302 ''https://google.com'', ?d')"
    by (simp add: redirect_link_def toLowerCase_def lower_char_def reserved_paths_def
          select_by_code_def update_clicks_def int4_max_def sample_links_def)
  have "unique_codes ?d' \<and> clicks_nonneg ?d'"
    using operations_preserve_invariants[OF h1 h2 h3] by blast
  then show ?thesis using h3 by (intro conjI) simp_all
qed

end
